theory Spec2Isabelle
  imports Main
begin

section \<open>Log levels, log entries and the formatter\<close>

text \<open>
  The package \<open>tolog\<close> (file \<open>tolog.go\<close>) is embedded function by function. Go strings are
  byte sequences and are modelled as \<open>string\<close> (a list of 8-bit characters). \<open>LogStatus\<close>
  and \<open>DateFormat\<close> are named string types in the source.
\<close>

type_synonym LogStatus = string
type_synonym DateFormat = string

definition StatusInfo :: LogStatus where "StatusInfo = ''info''"
definition StatusWarning :: LogStatus where "StatusWarning = ''warning''"
definition StatusError :: LogStatus where "StatusError = ''error''"
definition StatusDebug :: LogStatus where "StatusDebug = ''debug''"
definition StatusNotice :: LogStatus where "StatusNotice = ''notice''"
definition StatusUnknown :: LogStatus where "StatusUnknown = ''unknown''"

definition DateTime :: DateFormat where "DateTime = ''2006-01-02 15:04:05''"
definition DateOnly :: DateFormat where "DateOnly = ''2006-01-02''"

text \<open>The escape byte \<open>\033\<close> and the six colour codes of the source.\<close>

definition ESC :: char where "ESC = CHR 0x1B"

definition colorInfoBg :: string where "colorInfoBg = ESC # ''[48;5;27m''"
definition colorWarningBg :: string where "colorWarningBg = ESC # ''[48;5;226m''"
definition colorErrorBg :: string where "colorErrorBg = ESC # ''[48;5;196m''"
definition colorDebugBg :: string where "colorDebugBg = ESC # ''[48;5;45m''"
definition colorNoticeBg :: string where "colorNoticeBg = ESC # ''[48;5;165m''"
definition colorReset :: string where "colorReset = ESC # ''[0m''"

record ToLog =
  logType :: LogStatus
  logContext :: string
  logTime :: string
  FullLog :: string

text \<open>
  \<open>strings.ReplaceAll\<close> for a non-empty pattern: the non-overlapping occurrences of
  \<open>old\<close> are replaced from left to right. (For an empty pattern Go inserts \<open>new\<close> around
  every UTF-8 sequence; the package never passes one, and the model leaves the string as
  it is in that case.)
\<close>

function ReplaceAll :: "string \<Rightarrow> string \<Rightarrow> string \<Rightarrow> string" where
  "ReplaceAll [] old new = []"
| "ReplaceAll (c # cs) old new =
     (if old \<noteq> [] \<and> take (length old) (c # cs) = old
      then new @ ReplaceAll (drop (length old) (c # cs)) old new
      else c # ReplaceAll cs old new)"
  by pat_completeness auto
termination
  by (relation "measure (\<lambda>(s, old, new). length s)") auto

definition replacements :: "(string \<times> string) list" where
  "replacements =
     [(colorInfoBg, ''''), (colorWarningBg, ''''), (colorErrorBg, ''''),
      (colorDebugBg, ''''), (colorNoticeBg, ''''), (colorReset, '''')]"

definition stripColors :: "string \<Rightarrow> string" where
  "stripColors log = foldl (\<lambda>log r. ReplaceAll log (fst r) (snd r)) log replacements"

section \<open>Package state, operating system and goroutines\<close>

text \<open>
  A buffered channel of strings: the queued items, the capacity given to \<open>make\<close> and
  whether \<open>close\<close> has been called.
\<close>

record chan =
  ch_items :: "string list"
  ch_cap :: nat
  ch_closed :: bool

text \<open>
  A \<open>writeToFile\<close> goroutine is either spawned and not yet scheduled, waiting in its
  \<open>select\<close> with its local \<open>buffer\<close>, blocked for ever, or returned.
\<close>

datatype goroutine = Spawned | Running "string list" | Stuck | Exited

text \<open>
  The package-level variables of \<open>tolog.go\<close> (with their source names), the goroutines
  started by \<open>initLog\<close>, and the part of the operating system the package talks to: the
  directories and files, the console, and two oracles indexed by the number of system calls
  made so far, one for the formatted clock (\<open>time.Now().In(zone).Format(layout)\<close>) and one
  for the error, if any, of a file operation. An open \<open>*os.File\<close> is named by its path;
  \<open>nil\<close> is \<open>None\<close>. \<open>closeChannel\<close> carries no values, so only its closed flag is kept.
  \<open>makechan_max\<close> is the largest capacity for which \<open>make(chan string, n)\<close> succeeds in
  this process; it depends on the platform and on the memory at hand.
\<close>

record world =
  logFileDateFormat :: DateFormat
  logTimeFormat :: DateFormat
  currentLogDate :: string
  LogfilePrefix :: string
  LogWithColor :: bool
  LogTimeZone :: string
  logFile :: "string option"
  writeChannel :: "chan option"
  closeChannel :: "bool option"
  isLogFileClosed :: bool
  wg :: nat
  channelSize :: int
  logTicker :: int
  goroutines :: "goroutine list"
  fs_dirs :: "string set"
  fs_files :: "string \<rightharpoonup> string"
  console :: "string list"
  os_steps :: nat
  clock :: "nat \<Rightarrow> string \<Rightarrow> DateFormat \<Rightarrow> string"
  io_error :: "nat \<Rightarrow> string option"
  makechan_max :: int

text \<open>
  What a call does: it returns, it blocks for ever (the state at that point is kept, since
  the other goroutines go on), it panics, or it ends the process (\<open>log.Fatal\<close>).
\<close>

datatype 'a outcome = Returns 'a | Blocks world | Panics | Exits

definition init_world ::
  "string set \<Rightarrow> (string \<rightharpoonup> string) \<Rightarrow> (nat \<Rightarrow> string \<Rightarrow> DateFormat \<Rightarrow> string) \<Rightarrow>
   (nat \<Rightarrow> string option) \<Rightarrow> int \<Rightarrow> world" where
  "init_world dirs files clk errs lim =
     \<lparr>logFileDateFormat = DateOnly, logTimeFormat = DateTime, currentLogDate = '''',
      LogfilePrefix = '''', LogWithColor = True, LogTimeZone = ''Local'',
      logFile = None, writeChannel = None, closeChannel = None, isLogFileClosed = True,
      wg = 0, channelSize = 300, logTicker = 500000000, goroutines = [],
      fs_dirs = dirs, fs_files = files, console = [], os_steps = 0,
      clock = clk, io_error = errs, makechan_max = lim\<rparr>"

subsection \<open>System calls\<close>

definition time_Now_Format :: "DateFormat \<Rightarrow> world \<Rightarrow> string \<times> world" where
  "time_Now_Format layout w =
     (clock w (os_steps w) (LogTimeZone w) layout, w\<lparr>os_steps := Suc (os_steps w)\<rparr>)"

definition Println :: "string \<Rightarrow> world \<Rightarrow> world" where
  "Println line w = w\<lparr>console := console w @ [line]\<rparr>"

definition os_Mkdir :: "string \<Rightarrow> world \<Rightarrow> string option \<times> world" where
  "os_Mkdir dir w =
     (case io_error w (os_steps w) of
        Some err \<Rightarrow> (Some err, w\<lparr>os_steps := Suc (os_steps w)\<rparr>)
      | None \<Rightarrow> (None, w\<lparr>os_steps := Suc (os_steps w), fs_dirs := insert dir (fs_dirs w)\<rparr>))"

text \<open>\<open>os.OpenFile\<close> with \<open>O_WRONLY|O_CREATE|O_APPEND\<close>: an absent file is created empty.\<close>

definition os_OpenFile :: "string \<Rightarrow> world \<Rightarrow> (string + string) \<times> world" where
  "os_OpenFile path w =
     (case io_error w (os_steps w) of
        Some err \<Rightarrow> (Inl err, w\<lparr>os_steps := Suc (os_steps w)\<rparr>)
      | None \<Rightarrow>
          (Inr path,
           w\<lparr>os_steps := Suc (os_steps w),
             fs_files := (case fs_files w path of
                            None \<Rightarrow> (fs_files w)(path \<mapsto> '''')
                          | Some c \<Rightarrow> fs_files w)\<rparr>))"

text \<open>
  \<open>(*os.File).WriteString\<close> on an append-mode handle. A \<open>nil\<close> handle gives
  \<open>os.ErrInvalid\<close>; a failing write is taken to write nothing.
\<close>

definition os_WriteString :: "string option \<Rightarrow> string \<Rightarrow> world \<Rightarrow> string option \<times> world" where
  "os_WriteString file data w =
     (case file of
        None \<Rightarrow> (Some ''invalid argument'', w)
      | Some path \<Rightarrow>
          (case io_error w (os_steps w) of
             Some err \<Rightarrow> (Some err, w\<lparr>os_steps := Suc (os_steps w)\<rparr>)
           | None \<Rightarrow>
               (None,
                w\<lparr>os_steps := Suc (os_steps w),
                  fs_files := (fs_files w)(path \<mapsto>
                     (case fs_files w path of None \<Rightarrow> data | Some c \<Rightarrow> c @ data))\<rparr>)))"

definition os_Close :: "string option \<Rightarrow> world \<Rightarrow> string option \<times> world" where
  "os_Close file w =
     (case file of
        None \<Rightarrow> (Some ''invalid argument'', w)
      | Some path \<Rightarrow> (io_error w (os_steps w), w\<lparr>os_steps := Suc (os_steps w)\<rparr>))"

text \<open>The bytes of a file (empty when there is no such file).\<close>

definition file_content :: "world \<Rightarrow> string \<Rightarrow> string" where
  "file_content w path = (case fs_files w path of None \<Rightarrow> '''' | Some c \<Rightarrow> c)"

subsection \<open>The formatter and the options\<close>

definition CreateFullLog :: "world \<Rightarrow> ToLog \<Rightarrow> ToLog" where
  "CreateFullLog w l =
     (if \<not> LogWithColor w
      then l\<lparr>FullLog := ''['' @ logTime l @ ''] ['' @ logType l @ ''] '' @ '' '' @ logContext l\<rparr>
      else
        let bgColor =
              (if logType l = StatusInfo then colorInfoBg
               else if logType l = StatusWarning then colorWarningBg
               else if logType l = StatusError then colorErrorBg
               else if logType l = StatusDebug then colorDebugBg
               else if logType l = StatusNotice then colorNoticeBg
               else '''')
        in l\<lparr>FullLog := ''['' @ logTime l @ ''] '' @ bgColor @ '' '' @ logType l @ '' '' @
                          colorReset @ '' '' @ logContext l\<rparr>)"

text \<open>\<open>WithType(level)\<close> applied to the entry \<open>l\<close>.\<close>

definition WithType :: "LogStatus \<Rightarrow> world \<Rightarrow> ToLog \<Rightarrow> ToLog" where
  "WithType level w l =
     (let level' =
            (if level \<noteq> StatusInfo \<and> level \<noteq> StatusWarning \<and> level \<noteq> StatusError \<and>
                level \<noteq> StatusNotice \<and> level \<noteq> StatusDebug
             then StatusUnknown else level)
      in CreateFullLog w (l\<lparr>logType := level'\<rparr>))"

text \<open>
  \<open>(*ToLog).Type\<close>. \<open>strings.ToLower\<close> belongs to the Go library (it follows the Unicode
  tables), so it is a parameter here; \<open>ToLower_ascii\<close> is what it does on ASCII text.
\<close>

definition ToLog_Type :: "(string \<Rightarrow> string) \<Rightarrow> string \<Rightarrow> world \<Rightarrow> ToLog \<Rightarrow> ToLog" where
  "ToLog_Type ToLower le w l =
     (let level = ToLower le;
          level' =
            (if level \<noteq> StatusInfo \<and> level \<noteq> StatusWarning \<and> level \<noteq> StatusError \<and>
                level \<noteq> StatusNotice \<and> level \<noteq> StatusDebug
             then StatusUnknown else level)
      in CreateFullLog w (l\<lparr>logType := level'\<rparr>))"

definition ToLower_ascii :: "string \<Rightarrow> string" where
  "ToLower_ascii s =
     map (\<lambda>c. if (65::nat) \<le> of_char c \<and> of_char c \<le> (90::nat)
              then char_of (of_char c + (32::nat)) else c) s"

subsection \<open>Configuration\<close>

definition SetLogWithColor :: "bool \<Rightarrow> world \<Rightarrow> world" where
  "SetLogWithColor flag w = w\<lparr>LogWithColor := flag\<rparr>"

definition SetLogChannelSize :: "int \<Rightarrow> world \<Rightarrow> world" where
  "SetLogChannelSize size' w = (if size' < 101 then w else w\<lparr>channelSize := size'\<rparr>)"

definition SetLogTickerTime :: "int \<Rightarrow> world \<Rightarrow> world" where
  "SetLogTickerTime duration w = w\<lparr>logTicker := duration\<rparr>"

definition SetLogFileDateFormat :: "DateFormat \<Rightarrow> world \<Rightarrow> world" where
  "SetLogFileDateFormat format w = w\<lparr>logFileDateFormat := format\<rparr>"

subsection \<open>Opening and closing the log file\<close>

text \<open>
  \<open>initLog\<close> returns its \<open>error\<close> (\<open>None\<close> is \<open>nil\<close>) and the new state. \<open>os.Stat\<close>
  reports the directory as absent exactly when it is not in \<open>fs_dirs\<close>. \<open>make\<close> panics on
  a negative capacity and on one above \<open>makechan_max\<close> (\<open>makechan: size out of range\<close>, or
  the runtime is out of memory). \<open>go writeToFile()\<close> adds a goroutine.
\<close>

definition initLog :: "world \<Rightarrow> (string option \<times> world) outcome" where
  "initLog w =
     (let (currentDay, w1) = time_Now_Format (logFileDateFormat w) w;
          logFilePath =
            (if LogfilePrefix w1 \<noteq> ''''
             then ''./logs/'' @ LogfilePrefix w1 @ ''-log-'' @ currentDay @ ''.log''
             else ''./logs/log-'' @ currentDay @ ''.log'');
          w2 = w1\<lparr>currentLogDate := currentDay\<rparr>;
          logDir = ''./logs''
      in case (if logDir \<notin> fs_dirs w2 then os_Mkdir logDir w2 else (None, w2)) of
           (Some err, w3) \<Rightarrow>
             Returns (Some err, Println (''[error] Failed to create logs directory: '' @ err) w3)
         | (None, w3) \<Rightarrow>
             (case os_OpenFile logFilePath w3 of
                (Inl err, w4) \<Rightarrow> Returns (Some err, Println (''[error] '' @ err) w4)
              | (Inr file, w4) \<Rightarrow>
                  if channelSize w4 < 0 \<or> makechan_max w4 < channelSize w4 then Panics
                  else Returns (None,
                    w4\<lparr>logFile := Some file,
                       isLogFileClosed := False,
                       writeChannel :=
                         Some \<lparr>ch_items = [], ch_cap = nat (channelSize w4), ch_closed = False\<rparr>,
                       closeChannel := Some False,
                       wg := Suc (wg w4),
                       goroutines := goroutines w4 @ [Spawned]\<rparr>)))"

text \<open>\<open>close(ch)\<close> panics on a \<open>nil\<close> channel and on a channel that is already closed.\<close>

definition close_closeChannel :: "world \<Rightarrow> world outcome" where
  "close_closeChannel w =
     (case closeChannel w of
        None \<Rightarrow> Panics
      | Some closed \<Rightarrow> if closed then Panics else Returns (w\<lparr>closeChannel := Some True\<rparr>))"

definition close_writeChannel :: "world \<Rightarrow> world outcome" where
  "close_writeChannel w =
     (case writeChannel w of
        None \<Rightarrow> Panics
      | Some ch \<Rightarrow>
          if ch_closed ch then Panics
          else Returns (w\<lparr>writeChannel := Some (ch\<lparr>ch_closed := True\<rparr>)\<rparr>))"

text \<open>
  \<open>CloseLogFile\<close>. What \<open>wg.Wait()\<close> does depends on the goroutine that calls it, so it is
  a parameter: \<open>wg_Wait_self\<close> below for a call from inside \<open>writeToFile\<close>, \<open>wg_Wait\<close>
  for a call from the producer. A failing \<open>logFile.Close()\<close> ends in \<open>log.Fatal\<close>.
\<close>

definition CloseLogFile_with :: "(world \<Rightarrow> world outcome) \<Rightarrow> world \<Rightarrow> world outcome" where
  "CloseLogFile_with wg_Wait' w =
     (if logFile w = None \<or> isLogFileClosed w then Returns w
      else
        case close_closeChannel w of
          Returns w1 \<Rightarrow>
            (case (if writeChannel w1 \<noteq> None then close_writeChannel w1 else Returns w1) of
               Returns w2 \<Rightarrow>
                 (case wg_Wait' w2 of
                    Returns w3 \<Rightarrow>
                      (case os_Close (logFile w3) w3 of
                         (Some err, w4) \<Rightarrow> Exits
                       | (None, w4) \<Rightarrow> Returns (w4\<lparr>isLogFileClosed := True, logFile := None\<rparr>))
                  | Blocks b \<Rightarrow> Blocks b | Panics \<Rightarrow> Panics | Exits \<Rightarrow> Exits)
             | Blocks b \<Rightarrow> Blocks b | Panics \<Rightarrow> Panics | Exits \<Rightarrow> Exits)
        | Blocks b \<Rightarrow> Blocks b | Panics \<Rightarrow> Panics | Exits \<Rightarrow> Exits)"

text \<open>
  \<open>wg.Wait()\<close> called by a \<open>writeToFile\<close> goroutine. \<open>initLog\<close> counted that goroutine
  with \<open>wg.Add(1)\<close> and its \<open>wg.Done()\<close> is deferred until it returns, so the counter
  cannot reach zero while it waits.
\<close>

definition wg_Wait_self :: "world \<Rightarrow> world outcome" where
  "wg_Wait_self w = (if wg w = 0 then Returns w else Blocks w)"

subsection \<open>The consumer: \<open>checkLogFileDate\<close>, \<open>flushBuffer\<close>, \<open>writeToFile\<close>\<close>

text \<open>\<open>checkLogFileDate\<close> is only called by \<open>flushBuffer\<close>, inside \<open>writeToFile\<close>.\<close>

definition checkLogFileDate :: "world \<Rightarrow> world outcome" where
  "checkLogFileDate w =
     (let (currentDay, w1) = time_Now_Format (logFileDateFormat w) w
      in if currentLogDate w1 \<noteq> currentDay
         then (case CloseLogFile_with wg_Wait_self w1 of
                 Returns w2 \<Rightarrow>
                   (case initLog w2 of
                      Returns (err, w3) \<Rightarrow> Returns w3
                    | Blocks b \<Rightarrow> Blocks b | Panics \<Rightarrow> Panics | Exits \<Rightarrow> Exits)
               | Blocks b \<Rightarrow> Blocks b | Panics \<Rightarrow> Panics | Exits \<Rightarrow> Exits)
         else Returns w1)"

text \<open>
  \<open>flushBuffer(&buffer)\<close> returns the new state and the new contents of the buffer.
  \<open>strings.Join(buffer, "")\<close> is \<open>concat\<close>.
\<close>

definition flushBuffer :: "world \<Rightarrow> string list \<Rightarrow> (world \<times> string list) outcome" where
  "flushBuffer w buffer =
     (case checkLogFileDate w of
        Returns w1 \<Rightarrow>
          (let data = concat buffer;
               data' = (if LogWithColor w1 then stripColors data else data)
           in case os_WriteString (logFile w1) data' w1 of
                (Some err, w2) \<Rightarrow> Returns (Println (''[error] '' @ err) w2, buffer)
              | (None, w2) \<Rightarrow> Returns (w2, []))
      | Blocks b \<Rightarrow> Blocks b | Panics \<Rightarrow> Panics | Exits \<Rightarrow> Exits)"

text \<open>\<open>if len(buffer) >= 100 { flushBuffer(&buffer) }\<close> and \<open>if len(buffer) > 0 { ... }\<close>.\<close>

definition flush_if_full :: "world \<Rightarrow> string list \<Rightarrow> (world \<times> string list) outcome" where
  "flush_if_full w buffer =
     (if length buffer \<ge> 100 then flushBuffer w buffer else Returns (w, buffer))"

definition flush_if_nonempty :: "world \<Rightarrow> string list \<Rightarrow> (world \<times> string list) outcome" where
  "flush_if_nonempty w buffer =
     (if length buffer > 0 then flushBuffer w buffer else Returns (w, buffer))"

definition chan_len :: "world \<Rightarrow> nat" where
  "chan_len w = (case writeChannel w of None \<Rightarrow> 0 | Some ch \<Rightarrow> length (ch_items ch))"

text \<open>
  \<open>logEntry := <-writeChannel\<close>: a queued item if there is one; the zero value \<open>""\<close> from a
  closed and empty channel; otherwise (and on a \<open>nil\<close> channel) the receiver blocks.
\<close>

definition chan_recv :: "world \<Rightarrow> (string \<times> world) outcome" where
  "chan_recv w =
     (case writeChannel w of
        None \<Rightarrow> Blocks w
      | Some ch \<Rightarrow>
          (case ch_items ch of
             [] \<Rightarrow> if ch_closed ch then Returns ('''', w) else Blocks w
           | logEntry # rest \<Rightarrow>
               Returns (logEntry, w\<lparr>writeChannel := Some (ch\<lparr>ch_items := rest\<rparr>)\<rparr>)))"

text \<open>
  The loop \<open>for len(writeChannel) > 0 { ... }\<close> of the \<open>closeChannel\<close> case. It reads the
  package variable \<open>writeChannel\<close> anew in every round.
\<close>

function drain_loop :: "world \<Rightarrow> string list \<Rightarrow> (world \<times> string list) outcome" where
  "drain_loop w buffer =
     (if chan_len w > 0
      then (case chan_recv w of
              Returns (logEntry, w1) \<Rightarrow>
                (case flush_if_full w1 (buffer @ [logEntry]) of
                   Returns (w2, buffer2) \<Rightarrow> drain_loop w2 buffer2
                 | Blocks b \<Rightarrow> Blocks b | Panics \<Rightarrow> Panics | Exits \<Rightarrow> Exits)
            | Blocks b \<Rightarrow> Blocks b | Panics \<Rightarrow> Panics | Exits \<Rightarrow> Exits)
      else Returns (w, buffer))"
  by pat_completeness auto

text \<open>
  One round of the \<open>for { select { ... } }\<close> of \<open>writeToFile\<close>. Go picks any case that is
  ready; the case taken is given from outside. The receive case is ready when an item is
  queued or the channel is closed, the \<open>closeChannel\<close> case when that channel is closed; the
  ticker may fire at any time. The result is the new state and the buffer for the next
  round, or \<open>None\<close> after the \<open>return\<close> of the \<open>closeChannel\<close> case.
\<close>

datatype select_case = RecvCase | TickCase | CloseCase

definition select_ready :: "select_case \<Rightarrow> world \<Rightarrow> bool" where
  "select_ready c w =
     (case c of
        RecvCase \<Rightarrow>
          (case writeChannel w of None \<Rightarrow> False | Some ch \<Rightarrow> ch_items ch \<noteq> [] \<or> ch_closed ch)
      | TickCase \<Rightarrow> True
      | CloseCase \<Rightarrow> closeChannel w = Some True)"

definition writeToFile_select ::
  "select_case \<Rightarrow> world \<Rightarrow> string list \<Rightarrow> (world \<times> string list option) outcome" where
  "writeToFile_select c w buffer =
     (case c of
        RecvCase \<Rightarrow>
          (case chan_recv w of
             Returns (logEntry, w1) \<Rightarrow>
               (case flush_if_full w1 (buffer @ [logEntry]) of
                  Returns (w2, buffer2) \<Rightarrow> Returns (w2, Some buffer2)
                | Blocks b \<Rightarrow> Blocks b | Panics \<Rightarrow> Panics | Exits \<Rightarrow> Exits)
           | Blocks b \<Rightarrow> Blocks b | Panics \<Rightarrow> Panics | Exits \<Rightarrow> Exits)
      | TickCase \<Rightarrow>
          (case flush_if_nonempty w buffer of
             Returns (w1, buffer1) \<Rightarrow> Returns (w1, Some buffer1)
           | Blocks b \<Rightarrow> Blocks b | Panics \<Rightarrow> Panics | Exits \<Rightarrow> Exits)
      | CloseCase \<Rightarrow>
          (case flush_if_nonempty w buffer of
             Returns (w1, buffer1) \<Rightarrow>
               (case drain_loop w1 buffer1 of
                  Returns (w2, buffer2) \<Rightarrow>
                    (case flush_if_nonempty w2 buffer2 of
                       Returns (w3, buffer3) \<Rightarrow> Returns (w3, None)
                     | Blocks b \<Rightarrow> Blocks b | Panics \<Rightarrow> Panics | Exits \<Rightarrow> Exits)
                | Blocks b \<Rightarrow> Blocks b | Panics \<Rightarrow> Panics | Exits \<Rightarrow> Exits)
           | Blocks b \<Rightarrow> Blocks b | Panics \<Rightarrow> Panics | Exits \<Rightarrow> Exits))"

text \<open>
  The goroutine \<open>gid\<close> runs one round. A case that is not ready leaves it waiting. When
  the round returns, the deferred \<open>wg.Done()\<close> runs (it panics on a counter of zero); when
  the round blocks for ever, so does the goroutine; a panic ends the process.
\<close>

definition writeToFile_round ::
  "nat \<Rightarrow> select_case \<Rightarrow> world \<Rightarrow> string list \<Rightarrow> world outcome" where
  "writeToFile_round gid c w buffer =
     (if \<not> select_ready c w
      then Returns (w\<lparr>goroutines := (goroutines w)[gid := Running buffer]\<rparr>)
      else
        case writeToFile_select c w buffer of
          Returns (w', Some buffer') \<Rightarrow>
            Returns (w'\<lparr>goroutines := (goroutines w')[gid := Running buffer']\<rparr>)
        | Returns (w', None) \<Rightarrow>
            if wg w' = 0 then Panics
            else Returns (w'\<lparr>wg := wg w' - 1, goroutines := (goroutines w')[gid := Exited]\<rparr>)
        | Blocks b \<Rightarrow> Returns (b\<lparr>goroutines := (goroutines b)[gid := Stuck]\<rparr>)
        | Panics \<Rightarrow> Panics
        | Exits \<Rightarrow> Exits)"

text \<open>
  \<open>writeToFile\<close>, one scheduled round of goroutine \<open>gid\<close>. The first round starts with
  \<open>buffer := []string{}\<close> and \<open>time.NewTicker(logTicker)\<close>, which panics unless the period
  is positive.
\<close>

definition writeToFile :: "nat \<Rightarrow> select_case \<Rightarrow> world \<Rightarrow> world outcome" where
  "writeToFile gid c w =
     (if gid < length (goroutines w)
      then (case goroutines w ! gid of
              Spawned \<Rightarrow> if logTicker w \<le> 0 then Panics else writeToFile_round gid c w []
            | Running buffer \<Rightarrow> writeToFile_round gid c w buffer
            | Stuck \<Rightarrow> Returns w
            | Exited \<Rightarrow> Returns w)
      else Returns w)"

text \<open>
  \<open>wg.Wait()\<close> called by the producer: the goroutines run the rounds of the schedule
  until the counter is zero. A schedule that ends before that leaves the caller blocked.
\<close>

fun wg_Wait :: "(nat \<times> select_case) list \<Rightarrow> world \<Rightarrow> world outcome" where
  "wg_Wait [] w = (if wg w = 0 then Returns w else Blocks w)"
| "wg_Wait ((gid, c) # sched) w =
     (if wg w = 0 then Returns w
      else case writeToFile gid c w of
             Returns w' \<Rightarrow> wg_Wait sched w'
           | Blocks b \<Rightarrow> Blocks b | Panics \<Rightarrow> Panics | Exits \<Rightarrow> Exits)"

definition CloseLogFile :: "(nat \<times> select_case) list \<Rightarrow> world \<Rightarrow> world outcome" where
  "CloseLogFile sched w = CloseLogFile_with (wg_Wait sched) w"

subsection \<open>The producer\<close>

definition newline :: string where "newline = [CHR 0x0A]"

text \<open>
  \<open>writeChannel <- v\<close>: a send on a \<open>nil\<close> channel blocks for ever, a send on a closed
  channel panics, a send on a full channel blocks until a receiver makes room.
\<close>

definition chan_send :: "string \<Rightarrow> world \<Rightarrow> world outcome" where
  "chan_send v w =
     (case writeChannel w of
        None \<Rightarrow> Blocks w
      | Some ch \<Rightarrow>
          if ch_closed ch then Panics
          else if length (ch_items ch) < ch_cap ch
          then Returns (w\<lparr>writeChannel := Some (ch\<lparr>ch_items := ch_items ch @ [v]\<rparr>)\<rparr>)
          else Blocks w)"

text \<open>\<open>(*ToLog).WriteSafe\<close>; the entry itself is left as \<open>CreateFullLog w l\<close>.\<close>

definition WriteSafe :: "ToLog \<Rightarrow> world \<Rightarrow> world outcome" where
  "WriteSafe l w =
     (let l1 = CreateFullLog w l
      in case (if logFile w = None then initLog w else Returns (None, w)) of
           Returns (Some err, w1) \<Rightarrow> Returns w1
         | Returns (None, w1) \<Rightarrow> chan_send (FullLog l1 @ newline) w1
         | Blocks b \<Rightarrow> Blocks b | Panics \<Rightarrow> Panics | Exits \<Rightarrow> Exits)"

text \<open>The deprecated \<open>(*ToLog).Write\<close>; the result of \<open>WriteString\<close> is dropped.\<close>

definition Write :: "ToLog \<Rightarrow> world \<Rightarrow> world outcome" where
  "Write l w =
     (let l1 = CreateFullLog w l
      in case (if logFile w = None then initLog w else Returns (None, w)) of
           Returns (Some err, w1) \<Rightarrow> Returns w1
         | Returns (None, w1) \<Rightarrow>
             (if LogWithColor w1
              then Returns (snd (os_WriteString (logFile w1) (stripColors (FullLog l1) @ newline) w1))
              else Returns (snd (os_WriteString (logFile w1) (FullLog l1 @ newline) w1)))
         | Blocks b \<Rightarrow> Blocks b | Panics \<Rightarrow> Panics | Exits \<Rightarrow> Exits)"

definition SetLogPrefix :: "(nat \<times> select_case) list \<Rightarrow> string \<Rightarrow> world \<Rightarrow> world outcome" where
  "SetLogPrefix sched prefix w =
     (case CloseLogFile sched (w\<lparr>LogfilePrefix := prefix\<rparr>) of
        Returns w1 \<Rightarrow>
          (case initLog w1 of
             Returns (err, w2) \<Rightarrow> Returns w2
           | Blocks b \<Rightarrow> Blocks b | Panics \<Rightarrow> Panics | Exits \<Rightarrow> Exits)
      | Blocks b \<Rightarrow> Blocks b | Panics \<Rightarrow> Panics | Exits \<Rightarrow> Exits)"

subsection \<open>Runs of one producer and the consumer\<close>

text \<open>
  A run interleaves the calls of a single producer with rounds of the \<open>writeToFile\<close>
  goroutines; each call and each round is one step, taken as a whole. \<open>CloseLogFile\<close> is
  the one call that waits for the consumer: it closes both channels and then lets the
  goroutines run the rounds of a schedule it is given. (A round taken between the two
  \<open>close\<close> calls does what the same round does right after them.) A call that cannot
  go on, such as a send on a full queue, ends the run as \<open>Blocks\<close>.
\<close>

datatype action = Call_WriteSafe ToLog | Round nat select_case

definition step :: "action \<Rightarrow> world \<Rightarrow> world outcome" where
  "step a w = (case a of Call_WriteSafe l \<Rightarrow> WriteSafe l w | Round gid c \<Rightarrow> writeToFile gid c w)"

fun run :: "action list \<Rightarrow> world \<Rightarrow> world outcome" where
  "run [] w = Returns w"
| "run (a # as) w =
     (case step a w of
        Returns w' \<Rightarrow> run as w'
      | Blocks b \<Rightarrow> Blocks b | Panics \<Rightarrow> Panics | Exits \<Rightarrow> Exits)"

text \<open>The lines a run passes to \<open>WriteSafe\<close>, in order.\<close>

fun written_entries :: "action list \<Rightarrow> ToLog list" where
  "written_entries [] = []"
| "written_entries (Call_WriteSafe l # as) = l # written_entries as"
| "written_entries (Round gid c # as) = written_entries as"

section \<open>Notions for the statements\<close>

text \<open>The spec's invariant: the file handle is \<open>nil\<close> exactly when the closed flag is set.\<close>

definition file_closed_inv :: "world \<Rightarrow> bool" where
  "file_closed_inv w = ((logFile w = None) = isLogFileClosed w)"

text \<open>A string that is empty or ends in a newline; every line handed to the channel does.\<close>

definition line_ended :: "string \<Rightarrow> bool" where
  "line_ended s = (s = [] \<or> last s = CHR 0x0A)"

text \<open>What \<open>flushBuffer\<close> passes to \<open>WriteString\<close> for the joined buffer \<open>data\<close>.\<close>

definition persisted :: "bool \<Rightarrow> string \<Rightarrow> string" where
  "persisted flag data = (if flag then stripColors data else data)"

text \<open>The six patterns of \<open>replacements\<close>.\<close>

definition color_codes :: "string list" where
  "color_codes = map fst replacements"

text \<open>
  A line of the colourised formatter is a sequence of pieces, each a colour code or a text
  without the escape byte.
\<close>

definition tokens_ok :: "string list \<Rightarrow> bool" where
  "tokens_ok ts = (\<forall>t\<in>set ts. t \<in> set color_codes \<or> ESC \<notin> set t)"

definition entry_tokens :: "ToLog \<Rightarrow> string list" where
  "entry_tokens l =
     [''['' @ logTime l @ ''] '',
      (if logType l = StatusInfo then colorInfoBg
       else if logType l = StatusWarning then colorWarningBg
       else if logType l = StatusError then colorErrorBg
       else if logType l = StatusDebug then colorDebugBg
       else if logType l = StatusNotice then colorNoticeBg
       else []),
      '' '' @ logType l @ '' '', colorReset, '' '' @ logContext l @ newline]"

text \<open>The path \<open>initLog\<close> opens on the day \<open>day\<close>, and the line \<open>WriteSafe\<close> sends.\<close>

definition log_path :: "world \<Rightarrow> string \<Rightarrow> string" where
  "log_path w day =
     (if LogfilePrefix w \<noteq> '''' then ''./logs/'' @ LogfilePrefix w @ ''-log-'' @ day @ ''.log''
      else ''./logs/log-'' @ day @ ''.log'')"

definition line_of :: "world \<Rightarrow> ToLog \<Rightarrow> string" where
  "line_of w l = FullLog (CreateFullLog w l) @ newline"

text \<open>
  A run without trouble: no file operation ever fails, and the clock, formatted for the
  file name, always reads \<open>day\<close>.
\<close>

definition calm :: "string \<Rightarrow> world \<Rightarrow> bool" where
  "calm day w =
     ((\<forall>k. io_error w k = None) \<and>
      (\<forall>k. clock w k (LogTimeZone w) (logFileDateFormat w) = day))"

text \<open>
  The writer before its first use and after a completed \<open>CloseLogFile\<close>: no file handle
  and no live \<open>writeToFile\<close> goroutine.
\<close>

definition idle :: "world \<Rightarrow> bool" where
  "idle w = (logFile w = None \<and> wg w = 0 \<and> (\<forall>g\<in>set (goroutines w). g = Exited))"

text \<open>
  The buffer of goroutine \<open>gid\<close>; \<open>waiting\<close> says that \<open>gid\<close> is the one live consumer.
\<close>

definition pending :: "nat \<Rightarrow> world \<Rightarrow> string list" where
  "pending gid w = (case goroutines w ! gid of Running buffer \<Rightarrow> buffer | _ \<Rightarrow> [])"

definition waiting :: "nat \<Rightarrow> world \<Rightarrow> bool" where
  "waiting gid w =
     (gid < length (goroutines w) \<and>
      (goroutines w ! gid = Spawned \<or> (\<exists>buffer. goroutines w ! gid = Running buffer)) \<and>
      (\<forall>i<length (goroutines w). i \<noteq> gid \<longrightarrow> goroutines w ! i = Exited))"

text \<open>
  The state of the pipeline while the file \<open>p\<close> is open, before (\<open>closing = False\<close>) and
  after (\<open>closing = True\<close>) the producer has closed the two channels: what is in the
  file, followed by what the buffer and the queue will add to it, is \<open>content\<close>. The
  consumer has returned in a \<open>finished\<close> state.
\<close>

definition feeding ::
  "bool \<Rightarrow> string \<Rightarrow> string \<Rightarrow> string \<Rightarrow> world \<Rightarrow> string list \<Rightarrow> bool" where
  "feeding closing p day content w buffer =
     (calm day w \<and> currentLogDate w = day \<and> logFile w = Some p \<and> \<not> isLogFileClosed w \<and>
      closeChannel w = Some closing \<and> wg w = 1 \<and>
      (\<exists>ch. writeChannel w = Some ch \<and> ch_closed ch = closing \<and>
         (\<forall>x\<in>set (buffer @ ch_items ch). line_ended x) \<and>
         file_content w p @ persisted (LogWithColor w) (concat (buffer @ ch_items ch)) = content))"

definition pipeline :: "bool \<Rightarrow> nat \<Rightarrow> string \<Rightarrow> string \<Rightarrow> string \<Rightarrow> world \<Rightarrow> bool" where
  "pipeline closing gid p day content w =
     (waiting gid w \<and> feeding closing p day content w (pending gid w))"

definition finished :: "string \<Rightarrow> string \<Rightarrow> string \<Rightarrow> world \<Rightarrow> bool" where
  "finished p day content w =
     (calm day w \<and> logFile w = Some p \<and> wg w = 0 \<and> file_content w p = content)"

text \<open>The state after a flush of \<open>buffer\<close> that succeeds without rotation.\<close>

definition flushed :: "string \<Rightarrow> string list \<Rightarrow> world \<Rightarrow> world" where
  "flushed p buffer w =
     w\<lparr>os_steps := Suc (Suc (os_steps w)),
       fs_files := (fs_files w)(p \<mapsto>
          file_content w p @ persisted (LogWithColor w) (concat buffer))\<rparr>"

text \<open>
  Of \<open>n\<close> lines sent, all but a multiple of 100 are still in the buffer (fewer than
  100) or in the queue.
\<close>

definition tally :: "nat \<Rightarrow> nat \<Rightarrow> world \<Rightarrow> bool" where
  "tally gid n w =
     (\<exists>k. length (pending gid w) < 100 \<and> length (pending gid w) + chan_len w + 100 * k = n)"

section \<open>Sample states\<close>

text \<open>
  Sample states for the worked examples: a fresh process on 2024-01-01 whose file
  operations all succeed and whose runtime allocates channels of up to \<open>2^44 - 6\<close> strings
  (the bound of \<open>makechan\<close> on 64-bit Linux), an entry, the state after \<open>WriteSafe\<close> of
  that entry, and the state after the \<open>CloseLogFile\<close> that follows.
\<close>

definition demo_clock :: "nat \<Rightarrow> string \<Rightarrow> DateFormat \<Rightarrow> string" where
  "demo_clock k zone layout = ''2024-01-01''"

definition demo_makechan_max :: int where
  "demo_makechan_max = 17592186044410"

definition demo_world :: world where
  "demo_world = init_world {} Map.empty demo_clock (\<lambda>k. None) demo_makechan_max"

definition demo_entry :: ToLog where
  "demo_entry = \<lparr>logType = StatusInfo, logContext = ''A'', logTime = ''12:00'', FullLog = ''''\<rparr>"

definition demo_line :: string where
  "demo_line = ''[12:00] '' @ colorInfoBg @ '' info '' @ colorReset @ '' A'' @ newline"

definition demo_open :: world where
  "demo_open = demo_world
     \<lparr>currentLogDate := ''2024-01-01'',
      logFile := Some ''./logs/log-2024-01-01.log'',
      writeChannel := Some \<lparr>ch_items = [demo_line], ch_cap = 300, ch_closed = False\<rparr>,
      closeChannel := Some False,
      isLogFileClosed := False,
      wg := 1,
      goroutines := [Spawned],
      fs_dirs := {''./logs''},
      fs_files := [''./logs/log-2024-01-01.log'' \<mapsto> ''''],
      os_steps := 3\<rparr>"

definition demo_closed :: world where
  "demo_closed = demo_open
     \<lparr>logFile := None,
      writeChannel := Some \<lparr>ch_items = [], ch_cap = 300, ch_closed = True\<rparr>,
      closeChannel := Some True,
      isLogFileClosed := True,
      wg := 0,
      goroutines := [Exited],
      fs_files := [''./logs/log-2024-01-01.log'' \<mapsto> ''[12:00]  info  A'' @ newline],
      os_steps := 6\<rparr>"

text \<open>
  More sample states: the consumer holding one line in its buffer; the same with a disk
  that fails at the next write, with the colour flag off, and with a clock that has moved
  to the next day; and the states reached from them.
\<close>

definition demo_running :: world where
  "demo_running = demo_open
     \<lparr>writeChannel := Some \<lparr>ch_items = [], ch_cap = 300, ch_closed = False\<rparr>,
      goroutines := [Running [demo_line]]\<rparr>"

definition demo_disk_full :: world where
  "demo_disk_full = demo_running
     \<lparr>io_error := (\<lambda>k. if k = 4 then Some ''no space left on device'' else None)\<rparr>"

definition demo_plain :: world where
  "demo_plain = demo_running\<lparr>LogWithColor := False\<rparr>"

definition demo_next_day :: world where
  "demo_next_day = demo_running
     \<lparr>clock := (\<lambda>k zone layout. if k < 3 then ''2024-01-01'' else ''2024-01-02'')\<rparr>"

definition demo_stuck :: world where
  "demo_stuck = demo_next_day
     \<lparr>os_steps := 4,
      closeChannel := Some True,
      writeChannel := Some \<lparr>ch_items = [], ch_cap = 300, ch_closed = True\<rparr>,
      goroutines := [Stuck]\<rparr>"

definition demo_initialised :: world where
  "demo_initialised = demo_open
     \<lparr>writeChannel := Some \<lparr>ch_items = [], ch_cap = 300, ch_closed = False\<rparr>\<rparr>"

definition demo_written :: world where
  "demo_written = demo_initialised
     \<lparr>fs_files := [''./logs/log-2024-01-01.log'' \<mapsto> ''[12:00]  info  A'' @ newline],
      os_steps := 4\<rparr>"

definition demo_no_disk :: world where
  "demo_no_disk =
     init_world {} Map.empty demo_clock (\<lambda>k. Some ''permission denied'') demo_makechan_max"

definition demo_no_disk_after :: world where
  "demo_no_disk_after = demo_no_disk
     \<lparr>currentLogDate := ''2024-01-01'', os_steps := 2,
      console := [''[error] Failed to create logs directory: permission denied'']\<rparr>"

definition demo_reopened :: world where
  "demo_reopened = demo_closed
     \<lparr>LogfilePrefix := ''app'',
      logFile := Some ''./logs/app-log-2024-01-01.log'',
      writeChannel := Some \<lparr>ch_items = [], ch_cap = 300, ch_closed = False\<rparr>,
      closeChannel := Some False,
      isLogFileClosed := False,
      wg := 1,
      goroutines := [Exited, Spawned],
      fs_files := [''./logs/log-2024-01-01.log'' \<mapsto> ''[12:00]  info  A'' @ newline,
                   ''./logs/app-log-2024-01-01.log'' \<mapsto> ''''],
      os_steps := 8\<rparr>"

definition demo_trace :: "action list" where
  "demo_trace = concat (replicate 100 [Call_WriteSafe demo_entry, Round 0 RecvCase])"

definition demo_hundred :: world where
  "demo_hundred = demo_running
     \<lparr>goroutines := [Running []],
      fs_files := [''./logs/log-2024-01-01.log'' \<mapsto>
                     concat (replicate 100 (''[12:00]  info  A'' @ newline))],
      os_steps := 5\<rparr>"

definition demo_ninety_nine :: world where
  "demo_ninety_nine = demo_running\<lparr>goroutines := [Running (replicate 99 demo_line)]\<rparr>"

definition demo_busy :: world where
  "demo_busy = demo_open
     \<lparr>writeChannel := Some \<lparr>ch_items = [demo_line, demo_line], ch_cap = 300, ch_closed = False\<rparr>,
      goroutines := [Running []],
      fs_files := [''./logs/log-2024-01-01.log'' \<mapsto> ''[12:00]  info  A'' @ newline],
      os_steps := 5\<rparr>"

definition demo_three :: world where
  "demo_three = demo_closed
     \<lparr>fs_files := [''./logs/log-2024-01-01.log'' \<mapsto>
         ''[12:00]  info  A'' @ newline @ ''[12:00]  info  A'' @ newline @
         ''[12:00]  info  A'' @ newline],
      os_steps := 10\<rparr>"

definition demo_unstripped :: world where
  "demo_unstripped = demo_closed
     \<lparr>LogWithColor := False, fs_files := [''./logs/log-2024-01-01.log'' \<mapsto> demo_line]\<rparr>"

text \<open>
  Sample states with a disk that rejects a write: the fresh processes whose fifth (and
  whose fifth and seventh) file operation fails, the one whose clock moves to the next day
  after the file was opened, the consumer holding 100 lines after a failed flush at the
  threshold, a failed flush at a tick with a second line queued and its retry, and a
  \<open>CloseLogFile\<close> whose flushes all fail.
\<close>

definition demo_disk_full_start :: world where
  "demo_disk_full_start =
     init_world {} Map.empty demo_clock
       (\<lambda>k. if k = 4 then Some ''no space left on device'' else None) demo_makechan_max"

definition demo_next_day_start :: world where
  "demo_next_day_start =
     init_world {} Map.empty
       (\<lambda>k zone layout. if k < 3 then ''2024-01-01'' else ''2024-01-02'') (\<lambda>k. None)
       demo_makechan_max"

definition demo_broken_start :: world where
  "demo_broken_start =
     init_world {} Map.empty demo_clock
       (\<lambda>k. if k = 4 \<or> k = 6 then Some ''no space left on device'' else None)
       demo_makechan_max"

definition demo_hundred_kept :: world where
  "demo_hundred_kept = demo_disk_full
     \<lparr>goroutines := [Running (replicate 100 demo_line)],
      console := [''[error] no space left on device''],
      os_steps := 5\<rparr>"

definition demo_queued :: world where
  "demo_queued = demo_disk_full
     \<lparr>writeChannel := Some \<lparr>ch_items = [demo_line], ch_cap = 300, ch_closed = False\<rparr>\<rparr>"

definition demo_kept :: world where
  "demo_kept = demo_queued\<lparr>os_steps := 5, console := [''[error] no space left on device'']\<rparr>"

definition demo_retried :: world where
  "demo_retried = demo_kept
     \<lparr>writeChannel := Some \<lparr>ch_items = [], ch_cap = 300, ch_closed = False\<rparr>,
      goroutines := [Running []],
      fs_files := [''./logs/log-2024-01-01.log'' \<mapsto>
         ''[12:00]  info  A'' @ newline @ ''[12:00]  info  A'' @ newline],
      os_steps := 7\<rparr>"

definition demo_broken :: world where
  "demo_broken = demo_running
     \<lparr>io_error := (\<lambda>k. if k = 4 \<or> k = 6 then Some ''no space left on device'' else None)\<rparr>"

definition demo_closing :: world where
  "demo_closing = demo_broken
     \<lparr>closeChannel := Some True,
      writeChannel := Some \<lparr>ch_items = [], ch_cap = 300, ch_closed = True\<rparr>\<rparr>"

definition demo_lost :: world where
  "demo_lost = demo_closing
     \<lparr>logFile := None, isLogFileClosed := True, wg := 0, goroutines := [Exited],
      console := [''[error] no space left on device'', ''[error] no space left on device''],
      os_steps := 8\<rparr>"

section \<open>Termination of the drain loop\<close>

text \<open>A flush never adds items to \<open>writeChannel\<close>; the drain loop below terminates by that.\<close>

lemma initLog_chan_len: "initLog w = Returns (e, w') \<Longrightarrow> chan_len w' \<le> chan_len w"
  by (auto simp: initLog_def time_Now_Format_def os_Mkdir_def os_OpenFile_def Println_def
        chan_len_def Let_def
      split: if_splits option.splits prod.splits sum.splits)

lemma CloseLogFile_self_chan_len:
  "CloseLogFile_with wg_Wait_self w = Returns w' \<Longrightarrow> chan_len w' \<le> chan_len w"
  by (auto simp: CloseLogFile_with_def wg_Wait_self_def close_closeChannel_def
        close_writeChannel_def os_Close_def chan_len_def
      split: if_splits option.splits prod.splits outcome.splits)

lemma checkLogFileDate_chan_len:
  "checkLogFileDate w = Returns w' \<Longrightarrow> chan_len w' \<le> chan_len w"
  unfolding checkLogFileDate_def time_Now_Format_def Let_def
  apply (auto split: if_splits outcome.splits prod.splits
      simp: chan_len_def[of "w\<lparr>os_steps := _\<rparr>"])
   apply (drule CloseLogFile_self_chan_len, drule initLog_chan_len, simp add: chan_len_def)
  apply (simp add: chan_len_def)
  done

lemma flushBuffer_chan_len:
  "flushBuffer w b = Returns (w', b') \<Longrightarrow> chan_len w' \<le> chan_len w"
  unfolding flushBuffer_def Let_def
  by (auto split: outcome.splits prod.splits option.splits if_splits
      dest!: checkLogFileDate_chan_len simp: os_WriteString_def Println_def chan_len_def)

lemma chan_recv_chan_len:
  "0 < chan_len w \<Longrightarrow> chan_recv w = Returns (e, w') \<Longrightarrow> chan_len w' < chan_len w"
  by (auto simp: chan_recv_def chan_len_def split: option.splits list.splits if_splits)

lemma flush_if_full_chan_len:
  "flush_if_full w b = Returns (w', b') \<Longrightarrow> chan_len w' \<le> chan_len w"
  by (auto simp: flush_if_full_def split: if_splits dest: flushBuffer_chan_len)

termination drain_loop
proof (relation "measure (\<lambda>(w, buffer). chan_len w)")
  show "wf (measure (\<lambda>(w, buffer). chan_len w))" by simp
next
  fix w :: world and buffer x1 logEntry w1 x1b w2 buffer2
  assume "0 < chan_len w" "chan_recv w = Returns x1" "(logEntry, w1) = x1"
    "flush_if_full w1 (buffer @ [logEntry]) = Returns x1b" "(w2, buffer2) = x1b"
  then have "chan_len w1 < chan_len w" "chan_len w2 \<le> chan_len w1"
    using chan_recv_chan_len [of w logEntry w1]
      flush_if_full_chan_len [of w1 "buffer @ [logEntry]" w2 buffer2] by auto
  then show "((w2, buffer2), w, buffer) \<in> measure (\<lambda>(w, buffer). chan_len w)" by simp
qed

declare drain_loop.simps [simp del]

section \<open>Evaluating the sample states\<close>

lemmas os_defs =
  time_Now_Format_def os_Mkdir_def os_OpenFile_def os_WriteString_def os_Close_def Println_def

lemmas color_defs =
  ESC_def colorInfoBg_def colorWarningBg_def colorErrorBg_def colorDebugBg_def
  colorNoticeBg_def colorReset_def

lemmas consumer_defs =
  writeToFile_def writeToFile_round_def writeToFile_select_def select_ready_def
  flush_if_full_def flush_if_nonempty_def flushBuffer_def checkLogFileDate_def
  chan_recv_def chan_len_def drain_loop.simps

lemmas close_defs =
  CloseLogFile_def CloseLogFile_with_def close_closeChannel_def close_writeChannel_def
  wg_Wait_self_def

lemmas demo_defs =
  demo_world_def demo_entry_def demo_clock_def demo_line_def init_world_def DateOnly_def
  demo_makechan_max_def
  StatusInfo_def

lemma demo_open_eq: "WriteSafe demo_entry demo_world = Returns demo_open"
  by (simp add: WriteSafe_def initLog_def os_defs demo_defs demo_open_def chan_send_def
      CreateFullLog_def)

lemma demo_closed_eq: "CloseLogFile [(0, CloseCase)] demo_open = Returns demo_closed"
  by (simp add: close_defs consumer_defs os_defs demo_defs demo_open_def demo_closed_def
      stripColors_def replacements_def color_defs newline_def)

lemmas demo2_defs = demo_running_def demo_disk_full_def demo_plain_def demo_next_day_def demo_open_def

lemmas demo3_defs = demo_initialised_def demo_written_def demo_no_disk_def demo_no_disk_after_def
  demo_reopened_def demo_closed_def

lemmas demo4_defs = demo_queued_def demo_kept_def demo_retried_def demo_broken_def
  demo_closing_def demo_lost_def demo_hundred_kept_def

text \<open>
  The states with a failing disk, with the clock on the next day and with the colour flag
  off are states the package reaches from its initial state.
\<close>

lemma demo_reached:
  "run [Call_WriteSafe demo_entry, Round 0 RecvCase] demo_disk_full_start =
     Returns demo_disk_full \<and>
   run [Call_WriteSafe demo_entry, Round 0 RecvCase] demo_next_day_start =
     Returns demo_next_day \<and>
   SetLogWithColor False demo_running = demo_plain \<and>
   run [Call_WriteSafe demo_entry, Round 0 RecvCase, Call_WriteSafe demo_entry]
     demo_disk_full_start = Returns demo_queued \<and>
   run [Call_WriteSafe demo_entry, Round 0 RecvCase] demo_broken_start = Returns demo_broken"
  by (simp add: step_def WriteSafe_def initLog_def chan_send_def CreateFullLog_def
      consumer_defs os_defs demo_defs demo2_defs demo4_defs SetLogWithColor_def
      demo_disk_full_start_def demo_next_day_start_def demo_broken_start_def)

text \<open>
  The first \<open>WriteSafe\<close> panics in \<open>make\<close> when the configured capacity is above what the
  runtime can allocate, and not at the bound itself.
\<close>

lemma demo_capacity:
  "WriteSafe demo_entry (SetLogChannelSize (demo_makechan_max + 1) demo_world) = Panics \<and>
   WriteSafe demo_entry (SetLogChannelSize demo_makechan_max demo_world) \<noteq> Panics"
  by (simp add: WriteSafe_def initLog_def chan_send_def SetLogChannelSize_def os_defs demo_defs)

lemma run_append:
  "run as w = Returns w' \<Longrightarrow> run (as @ bs) w = run bs w'"
  by (induction as arbitrary: w) (auto split: outcome.splits)

lemma replicate_Suc_numeral:
  "replicate 99 x = x # replicate 98 x" "replicate 100 x = replicate 99 x @ [x]"
proof -
  have s: "(99::nat) = Suc 98" "(100::nat) = Suc 99"
    by simp_all
  show "replicate 99 x = x # replicate 98 x"
    unfolding s(1) by (rule replicate_Suc)
  show "replicate 100 x = replicate 99 x @ [x]"
    unfolding s(2) by (simp only: replicate_Suc replicate_append_same)
qed

section \<open>Stripping colour codes\<close>

text \<open>
  A pattern that starts with a byte that does not occur in a prefix cannot match inside
  that prefix, and a pattern without a newline cannot match across one.
\<close>

lemma ReplaceAll_Nil_pattern [simp]: "ReplaceAll s [] new = s"
  by (induction s) auto

lemma ReplaceAll_free:
  "old \<noteq> [] \<Longrightarrow> hd old \<notin> set a \<Longrightarrow> ReplaceAll (a @ s) old new = a @ ReplaceAll s old new"
proof (induction a)
  case Nil
  then show ?case by simp
next
  case (Cons c a)
  then have "take (length old) (c # a @ s) \<noteq> old"
    by (cases old) auto
  with Cons show ?case by simp
qed

lemma ReplaceAll_match:
  "old \<noteq> [] \<Longrightarrow> ReplaceAll (old @ s) old new = new @ ReplaceAll s old new"
  by (cases old) auto

lemma take_append_char:
  assumes "take n (a @ x # b) = old" "length old = n" "x \<notin> set old"
  shows "n \<le> length a"
proof (rule ccontr)
  assume "\<not> n \<le> length a"
  then have "length a < n" by simp
  then have "take n (a @ x # b) ! length a = x"
    by (simp add: nth_append)
  with assms \<open>length a < n\<close> show False
    by (metis nth_mem)
qed

lemma take_append_le: "n \<le> length a \<Longrightarrow> take n (a @ r) = take n a"
  by simp

lemma drop_append_le: "n \<le> length a \<Longrightarrow> drop n (a @ r) = drop n a @ r"
  by simp

lemma take_pattern_append:
  assumes "take (length old) a = old"
  shows "take (length old) (a @ r) = old"
proof -
  have "length (take (length old) a) = length old"
    using assms by simp
  then have "length old \<le> length a"
    by simp
  then show ?thesis
    using assms take_append_le [of "length old" a r] by simp
qed

lemma ReplaceAll_split:
  "old \<noteq> [] \<Longrightarrow> x \<notin> set old \<Longrightarrow>
   ReplaceAll (a @ x # b) old new = ReplaceAll a old new @ x # ReplaceAll b old new"
proof (induction a old new rule: ReplaceAll.induct)
  case (1 old new)
  then have "take (length old) (x # b) \<noteq> old"
    by (cases old) auto
  then show ?case by simp
next
  case (2 c cs old new)
  let ?a = "c # cs"
  show ?case
  proof (cases "take (length old) (?a @ x # b) = old")
    case True
    then have le: "length old \<le> length ?a"
      using take_append_char [of "length old" ?a x b old] 2(4) by simp
    then have m: "take (length old) ?a = old"
      using True take_append_le [of "length old" ?a "x # b"] by simp
    have d: "drop (length old) (?a @ x # b) = drop (length old) ?a @ x # b"
      using le by (rule drop_append_le)
    have "ReplaceAll (?a @ x # b) old new =
          new @ ReplaceAll (drop (length old) ?a @ x # b) old new"
      using True 2(3) d by simp
    also have "\<dots> = new @ ReplaceAll (drop (length old) ?a) old new @ x # ReplaceAll b old new"
      using 2(1) [OF _ 2(3) 2(4)] m 2(3) by simp
    also have "\<dots> = ReplaceAll ?a old new @ x # ReplaceAll b old new"
      using m 2(3) by simp
    finally show ?thesis .
  next
    case False
    then have "take (length old) ?a \<noteq> old"
      using take_pattern_append [of old ?a "x # b"] by blast
    with False 2 show ?thesis by simp
  qed
qed

lemma stripColors_Nil [simp]: "stripColors [] = []"
  by (simp add: stripColors_def replacements_def)

lemma stripColors_split:
  "stripColors (a @ CHR 0x0A # b) = stripColors a @ CHR 0x0A # stripColors b"
  by (simp add: stripColors_def replacements_def ReplaceAll_split color_defs)

lemma stripColors_line_ended:
  assumes "line_ended a"
  shows "stripColors (a @ b) = stripColors a @ stripColors b"
proof (cases "a = []")
  case True
  then show ?thesis by simp
next
  case False
  with assms obtain a' where a: "a = a' @ [CHR 0x0A]"
    unfolding line_ended_def by (metis append_butlast_last_id)
  have "stripColors (a' @ CHR 0x0A # b) = stripColors a' @ CHR 0x0A # stripColors b"
    by (rule stripColors_split)
  moreover have "stripColors (a' @ CHR 0x0A # []) = stripColors a' @ CHR 0x0A # stripColors []"
    by (rule stripColors_split)
  ultimately show ?thesis using a by simp
qed

lemma persisted_line_ended:
  "line_ended a \<Longrightarrow> persisted flag (a @ b) = persisted flag a @ persisted flag b"
  by (simp add: persisted_def stripColors_line_ended)

lemma persisted_Nil [simp]: "persisted flag [] = []"
  by (simp add: persisted_def)

lemma line_ended_Nil [simp]: "line_ended []"
  by (simp add: line_ended_def)

lemma line_ended_newline [simp]: "line_ended (s @ newline)"
  by (simp add: line_ended_def newline_def)

lemma line_ended_append: "line_ended a \<Longrightarrow> line_ended b \<Longrightarrow> line_ended (a @ b)"
  by (cases "b = []") (auto simp: line_ended_def)

lemma line_ended_concat: "\<forall>x\<in>set xs. line_ended x \<Longrightarrow> line_ended (concat xs)"
  by (induction xs) (auto simp: line_ended_append)

lemma persisted_concat:
  "\<forall>x\<in>set xs. line_ended x \<Longrightarrow> persisted flag (concat xs) = concat (map (persisted flag) xs)"
  by (induction xs) (auto simp: persisted_line_ended)

text \<open>
  On a sequence of colour codes and escape-free texts, \<open>stripColors\<close> removes exactly the
  codes.
\<close>

lemma ReplaceAll_code:
  "c \<in> set color_codes \<Longrightarrow> old \<in> set color_codes \<Longrightarrow>
   ReplaceAll (c @ s) old [] = (if c = old then [] else c) @ ReplaceAll s old []"
  by (auto simp: color_codes_def replacements_def color_defs)

lemma color_code_hd: "old \<in> set color_codes \<Longrightarrow> old \<noteq> [] \<and> hd old = ESC"
  by (auto simp: color_codes_def replacements_def color_defs)

lemma ReplaceAll_tokens:
  "tokens_ok ts \<Longrightarrow> old \<in> set color_codes \<Longrightarrow>
   ReplaceAll (concat ts) old [] = concat (filter (\<lambda>t. t \<noteq> old) ts)"
proof (induction ts)
  case Nil
  then show ?case by simp
next
  case (Cons t ts)
  then have ih: "ReplaceAll (concat ts) old [] = concat (filter (\<lambda>t. t \<noteq> old) ts)"
    by (simp add: tokens_ok_def)
  show ?case
  proof (cases "t \<in> set color_codes")
    case True
    then show ?thesis
      using ih Cons.prems(2) by (simp add: ReplaceAll_code)
  next
    case False
    then have free: "ESC \<notin> set t"
      using Cons.prems(1) by (simp add: tokens_ok_def)
    then have "t \<noteq> old"
      using Cons.prems(2) False by blast
    then show ?thesis
      using ih free color_code_hd [OF Cons.prems(2)] by (simp add: ReplaceAll_free)
  qed
qed

lemma tokens_ok_filter: "tokens_ok ts \<Longrightarrow> tokens_ok (filter P ts)"
  by (simp add: tokens_ok_def)

lemma stripColors_tokens:
  assumes "tokens_ok ts"
  shows "stripColors (concat ts) = concat (filter (\<lambda>t. t \<notin> set color_codes) ts)"
proof -
  have mem: "colorInfoBg \<in> set color_codes" "colorWarningBg \<in> set color_codes"
    "colorErrorBg \<in> set color_codes" "colorDebugBg \<in> set color_codes"
    "colorNoticeBg \<in> set color_codes" "colorReset \<in> set color_codes"
    by (simp_all add: color_codes_def replacements_def)
  have "stripColors (concat ts) =
        concat (filter (\<lambda>t. t \<noteq> colorReset) (filter (\<lambda>t. t \<noteq> colorNoticeBg)
          (filter (\<lambda>t. t \<noteq> colorDebugBg) (filter (\<lambda>t. t \<noteq> colorErrorBg)
          (filter (\<lambda>t. t \<noteq> colorWarningBg) (filter (\<lambda>t. t \<noteq> colorInfoBg) ts))))))"
    using assms mem
    by (simp only: stripColors_def replacements_def foldl.simps fst_conv snd_conv
        ReplaceAll_tokens tokens_ok_filter)
  also have "\<dots> = concat (filter (\<lambda>t. t \<notin> set color_codes) ts)"
    by (simp add: color_codes_def replacements_def conj_commute conj_left_commute cong: filter_cong)
  finally show ?thesis .
qed

lemma stripColors_tokens_free:
  assumes "tokens_ok ts"
  shows "ESC \<notin> set (stripColors (concat ts))"
  using assms by (auto simp: stripColors_tokens tokens_ok_def)

lemma colored_line_tokens:
  "LogWithColor w \<Longrightarrow> FullLog (CreateFullLog w l) @ newline = concat (entry_tokens l)"
  by (simp add: CreateFullLog_def entry_tokens_def Let_def)

lemma entry_tokens_ok:
  "ESC \<notin> set (logTime l) \<Longrightarrow> ESC \<notin> set (logType l) \<Longrightarrow> ESC \<notin> set (logContext l) \<Longrightarrow>
   tokens_ok (entry_tokens l)"
  by (simp add: tokens_ok_def entry_tokens_def color_codes_def replacements_def newline_def ESC_def)

lemma tokens_ok_concat: "\<forall>ts\<in>set tss. tokens_ok ts \<Longrightarrow> tokens_ok (concat tss)"
  by (auto simp: tokens_ok_def)

lemma colored_lines_stripped:
  assumes "LogWithColor w"
    and "\<forall>l\<in>set ls. ESC \<notin> set (logTime l) \<and> ESC \<notin> set (logType l) \<and> ESC \<notin> set (logContext l)"
  shows "ESC \<notin> set (stripColors (concat (map (\<lambda>l. FullLog (CreateFullLog w l) @ newline) ls)))"
proof -
  have "concat (map (\<lambda>l. FullLog (CreateFullLog w l) @ newline) ls) =
        concat (concat (map entry_tokens ls))"
    using assms(1) by (induction ls) (simp_all add: colored_line_tokens)
  moreover have "tokens_ok (concat (map entry_tokens ls))"
    using assms(2) by (intro tokens_ok_concat) (auto simp: entry_tokens_ok)
  ultimately show ?thesis
    using stripColors_tokens_free [of "concat (map entry_tokens ls)"] by simp
qed

section \<open>The level of an entry (C9)\<close>

lemma CreateFullLog_logType [simp]: "logType (CreateFullLog w l) = logType l"
  by (simp add: CreateFullLog_def Let_def)

text \<open>
  Claim C9. \<open>WithType\<close> stores one of the five levels info, warning, error, notice, debug
  as it is and stores \<open>unknown\<close> for every other value; \<open>Type\<close> does the same with the
  lower-cased string, whatever \<open>strings.ToLower\<close> computes.
\<close>

theorem level_normalised:
  "logType (WithType level w l) =
     (if level \<in> {StatusInfo, StatusWarning, StatusError, StatusNotice, StatusDebug}
      then level else StatusUnknown) \<and>
   logType (ToLog_Type ToLower le w l) =
     (if ToLower le \<in> {StatusInfo, StatusWarning, StatusError, StatusNotice, StatusDebug}
      then ToLower le else StatusUnknown)"
  by (simp add: WithType_def ToLog_Type_def Let_def)

text \<open>With ASCII input \<open>Type\<close> accepts any capitalisation of the five levels.\<close>

lemma level_examples:
  "logType (ToLog_Type ToLower_ascii ''WARNING'' demo_world demo_entry) = StatusWarning \<and>
   logType (ToLog_Type ToLower_ascii ''Verbose'' demo_world demo_entry) = StatusUnknown \<and>
   logType (WithType ''Info'' demo_world demo_entry) = StatusUnknown"
  by code_simp

section \<open>The queue capacity (C8)\<close>

text \<open>
  Claim C8. The capacity variable starts at 300. \<open>SetLogChannelSize\<close> changes nothing for
  a size below the floor 101 and stores every size from 101 on.
\<close>

theorem channel_size_floor:
  "channelSize (init_world dirs files clk errs lim) = 300 \<and>
   (size' < 101 \<longrightarrow> SetLogChannelSize size' w = w) \<and>
   (101 \<le> size' \<longrightarrow> channelSize (SetLogChannelSize size' w) = size')"
  by (simp add: init_world_def SetLogChannelSize_def)

theorem channel_size_floor_witness:
  "channelSize (init_world {} Map.empty demo_clock (\<lambda>k. None) demo_makechan_max) = 300 \<and>
   (100::int) < 101 \<and> SetLogChannelSize 100 demo_world = demo_world \<and>
   (101::int) \<le> 101 \<and> channelSize (SetLogChannelSize 101 demo_world) = 101"
  using
    channel_size_floor [of "{}" Map.empty demo_clock "\<lambda>k. None" demo_makechan_max 100 demo_world]
    channel_size_floor [of "{}" Map.empty demo_clock "\<lambda>k. None" demo_makechan_max 101 demo_world]
  by simp

section \<open>Closing twice (C5, C10)\<close>

text \<open>
  Claim C10. When the file handle is \<open>nil\<close> or the closed flag is set, \<open>CloseLogFile\<close>
  returns with the state untouched: no channel is closed, nothing is flushed, no file
  operation is made. This holds for the producer's call and for a call from the consumer.
\<close>

theorem CloseLogFile_noop:
  "logFile w = None \<or> isLogFileClosed w \<Longrightarrow>
   CloseLogFile sched w = Returns w \<and> CloseLogFile_with wg_Wait_self w = Returns w"
  by (simp add: CloseLogFile_def CloseLogFile_with_def)

theorem CloseLogFile_noop_witness:
  "(logFile demo_world = None \<or> isLogFileClosed demo_world) \<and>
   CloseLogFile [(0, CloseCase)] demo_world = Returns demo_world \<and>
   CloseLogFile_with wg_Wait_self demo_world = Returns demo_world"
proof -
  have h: "logFile demo_world = None \<or> isLogFileClosed demo_world"
    by (simp add: demo_world_def init_world_def)
  from CloseLogFile_noop [OF h, of "[(0, CloseCase)]"] h show ?thesis by simp
qed

lemma CloseLogFile_with_closed:
  "CloseLogFile_with wt w = Returns w' \<Longrightarrow> logFile w' = None \<or> isLogFileClosed w'"
  by (auto simp: CloseLogFile_with_def split: if_splits outcome.splits prod.splits option.splits)

text \<open>
  Claim C5. A second \<open>CloseLogFile\<close> after one that returned gives back the very same
  state: the files are as the first call left them, and the counter of system calls, the
  channels and the console show that the second call did nothing.
\<close>

theorem CloseLogFile_idempotent:
  "CloseLogFile sched w = Returns w' \<Longrightarrow> CloseLogFile sched' w' = Returns w'"
proof -
  assume "CloseLogFile sched w = Returns w'"
  then have "logFile w' = None \<or> isLogFileClosed w'"
    unfolding CloseLogFile_def by (rule CloseLogFile_with_closed)
  then show ?thesis
    by (simp add: CloseLogFile_def CloseLogFile_with_def)
qed

theorem CloseLogFile_idempotent_witness:
  "CloseLogFile [(0, CloseCase)] demo_open = Returns demo_closed \<and>
   CloseLogFile [(0, CloseCase)] demo_closed = Returns demo_closed"
  using CloseLogFile_idempotent [OF demo_closed_eq] demo_closed_eq by simp

section \<open>One flush (C2, C3, C4)\<close>

lemma checkLogFileDate_same_day:
  "clock w (os_steps w) (LogTimeZone w) (logFileDateFormat w) = currentLogDate w \<Longrightarrow>
   checkLogFileDate w = Returns (w\<lparr>os_steps := Suc (os_steps w)\<rparr>)"
  by (simp add: checkLogFileDate_def time_Now_Format_def)

lemma flushBuffer_written:
  assumes "checkLogFileDate w = Returns w1" "logFile w1 = Some p"
    "io_error w1 (os_steps w1) = None"
  shows "flushBuffer w buffer =
     Returns (w1\<lparr>os_steps := Suc (os_steps w1),
                 fs_files := (fs_files w1)(p \<mapsto>
                   file_content w1 p @ persisted (LogWithColor w1) (concat buffer))\<rparr>, [])"
  using assms
  by (simp add: flushBuffer_def os_WriteString_def file_content_def persisted_def
      split: option.splits)

lemma flushBuffer_failed:
  assumes "checkLogFileDate w = Returns w1"
    "os_WriteString (logFile w1) (persisted (LogWithColor w1) (concat buffer)) w1 = (Some err, w2)"
  shows "flushBuffer w buffer = Returns (w2\<lparr>console := console w2 @ [''[error] '' @ err]\<rparr>, buffer)"
  using assms by (simp add: flushBuffer_def persisted_def Println_def)












text \<open>
  The loss at the end, seen from the producer: when both flushes of the \<open>closeChannel\<close>
  case fail, \<open>CloseLogFile\<close> returns with the file closed and the line in no file.
\<close>

lemma final_flush_lost:
  "CloseLogFile [(0, CloseCase)] demo_broken = Returns demo_lost \<and>
   file_content demo_lost ''./logs/log-2024-01-01.log'' = '''' \<and>
   logFile demo_lost = None \<and> goroutines demo_lost = [Exited]"
  by (simp add: close_defs consumer_defs os_defs demo_defs demo2_defs demo4_defs
      file_content_def stripColors_def replacements_def color_defs newline_def)

text \<open>
  Claim C3, as amended. A flush whose write succeeds appends the joined buffer to the
  file, passed through \<open>stripColors\<close> exactly when \<open>LogWithColor\<close> is set at the time of the
  flush and unchanged otherwise. When the flag is set and the buffer holds lines of the
  colourised formatter whose time, level and message are free of the escape byte, the
  bytes written contain no escape byte, hence no colour code.
\<close>

theorem flush_strips_iff_colored:
  assumes "checkLogFileDate w = Returns w1"
    and "logFile w1 = Some p"
    and "io_error w1 (os_steps w1) = None"
  shows "flushBuffer w buffer =
           Returns (w1\<lparr>os_steps := Suc (os_steps w1),
                       fs_files := (fs_files w1)(p \<mapsto> file_content w1 p @
                         (if LogWithColor w1 then stripColors (concat buffer) else concat buffer))\<rparr>,
                    []) \<and>
         (LogWithColor w1 \<longrightarrow>
          buffer = map (\<lambda>l. FullLog (CreateFullLog w1 l) @ newline) ls \<longrightarrow>
          (\<forall>l\<in>set ls. ESC \<notin> set (logTime l) \<and> ESC \<notin> set (logType l) \<and>
                      ESC \<notin> set (logContext l)) \<longrightarrow>
          ESC \<notin> set (stripColors (concat buffer)))"
  using flushBuffer_written [OF assms, of buffer] colored_lines_stripped [of w1 ls]
  by (simp add: persisted_def)

text \<open>
  The claim as the spec states it (stripping whatever the flag says) is false: a line
  formatted with colours and flushed after \<open>SetLogWithColor(false)\<close> reaches the file with
  its colour codes.
\<close>

theorem flush_unstripped_counterexample:
  "FullLog (CreateFullLog demo_world demo_entry) @ newline = demo_line \<and>
   flushBuffer demo_plain [demo_line] =
     Returns (demo_plain\<lparr>os_steps := 5,
                fs_files := [''./logs/log-2024-01-01.log'' \<mapsto> demo_line]\<rparr>, []) \<and>
   ESC \<in> set demo_line \<and> stripColors demo_line \<noteq> demo_line"
  by (simp add: flushBuffer_def checkLogFileDate_def os_defs demo_defs demo2_defs
      CreateFullLog_def stripColors_def replacements_def color_defs newline_def)

theorem flush_strips_iff_colored_witness:
  "checkLogFileDate demo_running = Returns (demo_running\<lparr>os_steps := 4\<rparr>) \<and>
   logFile (demo_running\<lparr>os_steps := 4\<rparr>) = Some ''./logs/log-2024-01-01.log'' \<and>
   io_error (demo_running\<lparr>os_steps := 4\<rparr>) (os_steps (demo_running\<lparr>os_steps := 4\<rparr>)) = None \<and>
   LogWithColor (demo_running\<lparr>os_steps := 4\<rparr>) \<and>
   [demo_line] = map (\<lambda>l. FullLog (CreateFullLog (demo_running\<lparr>os_steps := 4\<rparr>) l) @ newline)
                   [demo_entry] \<and>
   ESC \<notin> set (logTime demo_entry) \<and> ESC \<notin> set (logType demo_entry) \<and>
   ESC \<notin> set (logContext demo_entry) \<and>
   flushBuffer demo_running [demo_line] =
     Returns (demo_running\<lparr>os_steps := 5,
                fs_files := [''./logs/log-2024-01-01.log'' \<mapsto> ''[12:00]  info  A'' @ newline]\<rparr>,
              []) \<and>
   ESC \<notin> set (stripColors (concat [demo_line]))"
proof -
  let ?w1 = "demo_running\<lparr>os_steps := 4\<rparr>"
  have h1: "checkLogFileDate demo_running = Returns ?w1"
    by (simp add: checkLogFileDate_def os_defs demo_defs demo2_defs)
  have h2: "logFile ?w1 = Some ''./logs/log-2024-01-01.log''"
    and h3: "io_error ?w1 (os_steps ?w1) = None"
    and h4: "LogWithColor ?w1"
    by (simp_all add: demo_defs demo2_defs)
  have h5: "[demo_line] = map (\<lambda>l. FullLog (CreateFullLog ?w1 l) @ newline) [demo_entry]"
    by (simp add: CreateFullLog_def demo_defs demo2_defs)
  have h6: "\<forall>l\<in>set [demo_entry]. ESC \<notin> set (logTime l) \<and> ESC \<notin> set (logType l) \<and>
                      ESC \<notin> set (logContext l)"
    by (simp add: demo_defs ESC_def)
  have s: "stripColors demo_line = ''[12:00]  info  A'' @ newline"
    by (simp add: stripColors_def replacements_def color_defs newline_def demo_line_def)
  from flush_strips_iff_colored [OF h1 h2 h3, of "[demo_line]" "[demo_entry]"] h4 h5 h6
  have "flushBuffer demo_running [demo_line] =
           Returns (?w1\<lparr>os_steps := Suc (os_steps ?w1),
                       fs_files := (fs_files ?w1)(''./logs/log-2024-01-01.log'' \<mapsto>
                         file_content ?w1 ''./logs/log-2024-01-01.log'' @
                         (if LogWithColor ?w1 then stripColors (concat [demo_line])
                          else concat [demo_line]))\<rparr>, [])"
    and "ESC \<notin> set (stripColors (concat [demo_line]))"
    by blast+
  then show ?thesis
    using h1 h2 h3 h4 h5 h6 s by (simp add: demo_defs demo2_defs file_content_def)
qed

text \<open>
  Rotation. \<open>checkLogFileDate\<close> runs inside the \<open>writeToFile\<close> goroutine and calls
  \<open>CloseLogFile\<close>, which closes both channels and then waits for that same goroutine.
\<close>

lemma CloseLogFile_self_blocks:
  assumes "logFile w = Some p" "\<not> isLogFileClosed w" "0 < wg w"
  shows "CloseLogFile_with wg_Wait_self w = Panics \<or>
         CloseLogFile_with wg_Wait_self w =
           Blocks (w\<lparr>closeChannel := Some True,
                      writeChannel := map_option (\<lambda>ch. ch\<lparr>ch_closed := True\<rparr>) (writeChannel w)\<rparr>)"
proof (cases "closeChannel w")
  case None
  with assms show ?thesis
    by (simp add: CloseLogFile_with_def close_closeChannel_def)
next
  case (Some closed)
  show ?thesis
  proof (cases "writeChannel w")
    case None
    have "w\<lparr>closeChannel := Some True, writeChannel := None\<rparr> = w\<lparr>closeChannel := Some True\<rparr>"
      using None by (cases w) simp
    with assms Some None show ?thesis
      by (simp add: CloseLogFile_with_def close_closeChannel_def wg_Wait_self_def)
  next
    case (Some ch)
    with assms \<open>closeChannel w = Some closed\<close> show ?thesis
      by (simp add: CloseLogFile_with_def close_closeChannel_def close_writeChannel_def
          wg_Wait_self_def)
  qed
qed

text \<open>
  Claim C4 (the code does not do what the claim says). Whenever a flush sees a date
  other than \<open>currentLogDate\<close> while the file is open, it never returns: it panics (a
  channel was closed already) or blocks for ever in \<open>wg.Wait()\<close>. In the blocked state
  both channels are closed, but the old file handle is still open, \<open>currentLogDate\<close> is
  unchanged, no new file has been opened and the buffered lines are unwritten.
\<close>

theorem rotation_blocks_consumer:
  assumes "logFile w = Some p"
    and "\<not> isLogFileClosed w"
    and "0 < wg w"
    and "clock w (os_steps w) (LogTimeZone w) (logFileDateFormat w) \<noteq> currentLogDate w"
  shows "flushBuffer w buffer = Panics \<or>
         flushBuffer w buffer =
           Blocks (w\<lparr>os_steps := Suc (os_steps w),
                      closeChannel := Some True,
                      writeChannel := map_option (\<lambda>ch. ch\<lparr>ch_closed := True\<rparr>) (writeChannel w)\<rparr>)"
proof -
  let ?w1 = "w\<lparr>os_steps := Suc (os_steps w)\<rparr>"
  have "logFile ?w1 = Some p" "\<not> isLogFileClosed ?w1" "0 < wg ?w1"
    using assms by simp_all
  from CloseLogFile_self_blocks [OF this] assms(4) show ?thesis
    by (auto simp: flushBuffer_def checkLogFileDate_def time_Now_Format_def)
qed

text \<open>
  At the sample state whose clock has moved to the next day, the tick leaves the consumer
  stuck, and the producer's next \<open>WriteSafe\<close> or \<open>CloseLogFile\<close> panics.
\<close>

theorem rotation_blocks_consumer_witness:
  "logFile demo_next_day = Some ''./logs/log-2024-01-01.log'' \<and>
   \<not> isLogFileClosed demo_next_day \<and> 0 < wg demo_next_day \<and>
   clock demo_next_day (os_steps demo_next_day) (LogTimeZone demo_next_day)
     (logFileDateFormat demo_next_day) \<noteq> currentLogDate demo_next_day \<and>
   flushBuffer demo_next_day [demo_line] \<noteq> Panics \<and>
   flushBuffer demo_next_day [demo_line] =
     Blocks (demo_next_day
       \<lparr>os_steps := 4, closeChannel := Some True,
        writeChannel := Some \<lparr>ch_items = [], ch_cap = 300, ch_closed = True\<rparr>\<rparr>) \<and>
   writeToFile 0 TickCase demo_next_day = Returns demo_stuck \<and>
   logFile demo_stuck = Some ''./logs/log-2024-01-01.log'' \<and>
   currentLogDate demo_stuck = ''2024-01-01'' \<and>
   fs_files demo_stuck = [''./logs/log-2024-01-01.log'' \<mapsto> ''''] \<and>
   WriteSafe demo_entry demo_stuck = Panics \<and>
   CloseLogFile [(0, CloseCase)] demo_stuck = Panics"
proof -
  have h: "logFile demo_next_day = Some ''./logs/log-2024-01-01.log''"
    "\<not> isLogFileClosed demo_next_day" "0 < wg demo_next_day"
    "clock demo_next_day (os_steps demo_next_day) (LogTimeZone demo_next_day)
       (logFileDateFormat demo_next_day) \<noteq> currentLogDate demo_next_day"
    by (simp_all add: demo_defs demo2_defs)
  have np: "flushBuffer demo_next_day [demo_line] \<noteq> Panics"
    by (simp add: flushBuffer_def checkLogFileDate_def close_defs os_defs demo_defs demo2_defs)
  have r: "writeToFile 0 TickCase demo_next_day = Returns demo_stuck"
    by (simp add: consumer_defs close_defs os_defs demo_defs demo2_defs demo_stuck_def)
  have p: "WriteSafe demo_entry demo_stuck = Panics"
    "CloseLogFile [(0, CloseCase)] demo_stuck = Panics"
    by (simp_all add: WriteSafe_def chan_send_def close_defs demo_defs demo2_defs demo_stuck_def)
  from rotation_blocks_consumer [OF h, of "[demo_line]"] np
  have "flushBuffer demo_next_day [demo_line] =
     Blocks (demo_next_day
       \<lparr>os_steps := Suc (os_steps demo_next_day), closeChannel := Some True,
        writeChannel := map_option (\<lambda>ch. ch\<lparr>ch_closed := True\<rparr>) (writeChannel demo_next_day)\<rparr>)"
    by blast
  then show ?thesis
    using h np r p by (simp add: demo_defs demo2_defs demo_stuck_def)
qed

section \<open>The invariant of the spec (C7)\<close>

lemma initLog_inv: "file_closed_inv w \<Longrightarrow> initLog w = Returns (e, w') \<Longrightarrow> file_closed_inv w'"
  by (auto simp: initLog_def file_closed_inv_def os_defs Let_def
      split: if_splits option.splits prod.splits sum.splits)

lemma CloseLogFile_with_inv:
  "file_closed_inv w \<Longrightarrow> CloseLogFile_with wt w = Returns w' \<Longrightarrow> file_closed_inv w'"
  by (auto simp: CloseLogFile_with_def file_closed_inv_def
      split: if_splits outcome.splits prod.splits option.splits)

lemma chan_send_inv: "file_closed_inv w \<Longrightarrow> chan_send v w = Returns w' \<Longrightarrow> file_closed_inv w'"
  by (auto simp: chan_send_def file_closed_inv_def split: if_splits option.splits)

lemma os_WriteString_inv: "file_closed_inv w \<Longrightarrow> file_closed_inv (snd (os_WriteString f d w))"
  by (auto simp: os_WriteString_def file_closed_inv_def split: option.splits)

lemma WriteSafe_inv: "file_closed_inv w \<Longrightarrow> WriteSafe l w = Returns w' \<Longrightarrow> file_closed_inv w'"
  by (auto simp: WriteSafe_def Let_def split: if_splits outcome.splits prod.splits option.splits
      dest: initLog_inv chan_send_inv)

lemma Write_inv: "file_closed_inv w \<Longrightarrow> Write l w = Returns w' \<Longrightarrow> file_closed_inv w'"
  by (auto simp: Write_def Let_def os_WriteString_inv
      split: if_splits outcome.splits prod.splits option.splits
      dest: initLog_inv intro: os_WriteString_inv)

lemma checkLogFileDate_inv:
  "file_closed_inv w \<Longrightarrow> checkLogFileDate w = Returns w' \<Longrightarrow> file_closed_inv w'"
proof -
  assume i: "file_closed_inv w" and r: "checkLogFileDate w = Returns w'"
  let ?w1 = "w\<lparr>os_steps := Suc (os_steps w)\<rparr>"
  have i1: "file_closed_inv ?w1"
    using i by (simp add: file_closed_inv_def)
  show ?thesis
  proof (cases "currentLogDate w = clock w (os_steps w) (LogTimeZone w) (logFileDateFormat w)")
    case True
    with r i1 show ?thesis
      by (simp add: checkLogFileDate_def time_Now_Format_def)
  next
    case False
    with r obtain w2 e where "CloseLogFile_with wg_Wait_self ?w1 = Returns w2"
      "initLog w2 = Returns (e, w')"
      by (auto simp: checkLogFileDate_def time_Now_Format_def split: outcome.splits)
    with i1 show ?thesis
      using CloseLogFile_with_inv initLog_inv by blast
  qed
qed

lemma SetLogPrefix_inv:
  "file_closed_inv w \<Longrightarrow> SetLogPrefix sched prefix w = Returns w' \<Longrightarrow> file_closed_inv w'"
proof -
  assume i: "file_closed_inv w" and r: "SetLogPrefix sched prefix w = Returns w'"
  have i1: "file_closed_inv (w\<lparr>LogfilePrefix := prefix\<rparr>)"
    using i by (simp add: file_closed_inv_def)
  from r obtain w1 e where "CloseLogFile_with (wg_Wait sched) (w\<lparr>LogfilePrefix := prefix\<rparr>) = Returns w1"
    "initLog w1 = Returns (e, w')"
    by (auto simp: SetLogPrefix_def CloseLogFile_def split: outcome.splits)
  with i1 show ?thesis
    using CloseLogFile_with_inv initLog_inv by blast
qed

text \<open>
  Claim C7. The file handle is \<open>nil\<close> exactly when the closed flag is set: this holds in
  the initial state, and \<open>WriteSafe\<close>, \<open>Write\<close>, \<open>CloseLogFile\<close>, \<open>SetLogPrefix\<close>,
  \<open>checkLogFileDate\<close> and \<open>initLog\<close> (whether it fails or not) keep it whenever they
  return.
\<close>

theorem file_closed_inv_preserved:
  "file_closed_inv (init_world dirs files clk errs lim) \<and>
   (file_closed_inv w \<longrightarrow>
     (\<forall>w'. WriteSafe l w = Returns w' \<longrightarrow> file_closed_inv w') \<and>
     (\<forall>w'. Write l w = Returns w' \<longrightarrow> file_closed_inv w') \<and>
     (\<forall>w'. CloseLogFile sched w = Returns w' \<longrightarrow> file_closed_inv w') \<and>
     (\<forall>w'. SetLogPrefix sched prefix w = Returns w' \<longrightarrow> file_closed_inv w') \<and>
     (\<forall>w'. checkLogFileDate w = Returns w' \<longrightarrow> file_closed_inv w') \<and>
     (\<forall>err w'. initLog w = Returns (err, w') \<longrightarrow> file_closed_inv w'))"
proof -
  have "file_closed_inv (init_world dirs files clk errs lim)"
    by (simp add: file_closed_inv_def init_world_def)
  moreover have "file_closed_inv w \<Longrightarrow> CloseLogFile sched w = Returns w' \<Longrightarrow> file_closed_inv w'" for w'
    unfolding CloseLogFile_def by (rule CloseLogFile_with_inv)
  ultimately show ?thesis
    using WriteSafe_inv Write_inv SetLogPrefix_inv checkLogFileDate_inv initLog_inv by blast
qed

lemma demo_written_eq: "Write demo_entry demo_world = Returns demo_written"
  by (simp add: Write_def initLog_def os_defs demo_defs demo2_defs demo3_defs CreateFullLog_def
      stripColors_def replacements_def color_defs newline_def)

lemma demo_initialised_eq: "initLog demo_world = Returns (None, demo_initialised)"
  by (simp add: initLog_def os_defs demo_defs demo2_defs demo3_defs)

lemma demo_no_disk_eq: "initLog demo_no_disk = Returns (Some ''permission denied'', demo_no_disk_after)"
  by (simp add: initLog_def os_defs demo_defs demo2_defs demo3_defs)

lemma demo_same_day_eq: "checkLogFileDate demo_running = Returns (demo_running\<lparr>os_steps := 4\<rparr>)"
  by (simp add: checkLogFileDate_def os_defs demo_defs demo2_defs)

lemma demo_reopened_eq: "SetLogPrefix [(0, CloseCase)] ''app'' demo_open = Returns demo_reopened"
  by (simp add: SetLogPrefix_def initLog_def close_defs consumer_defs os_defs demo_defs
      demo2_defs demo3_defs stripColors_def replacements_def color_defs newline_def)

theorem file_closed_inv_preserved_witness:
  "file_closed_inv demo_world \<and>
   WriteSafe demo_entry demo_world = Returns demo_open \<and> file_closed_inv demo_open \<and>
   Write demo_entry demo_world = Returns demo_written \<and> file_closed_inv demo_written \<and>
   CloseLogFile [(0, CloseCase)] demo_open = Returns demo_closed \<and> file_closed_inv demo_closed \<and>
   SetLogPrefix [(0, CloseCase)] ''app'' demo_open = Returns demo_reopened \<and>
   file_closed_inv demo_reopened \<and>
   file_closed_inv demo_running \<and>
   checkLogFileDate demo_running = Returns (demo_running\<lparr>os_steps := 4\<rparr>) \<and>
   file_closed_inv (demo_running\<lparr>os_steps := 4\<rparr>) \<and>
   initLog demo_world = Returns (None, demo_initialised) \<and> file_closed_inv demo_initialised \<and>
   file_closed_inv demo_no_disk \<and>
   initLog demo_no_disk = Returns (Some ''permission denied'', demo_no_disk_after) \<and>
   file_closed_inv demo_no_disk_after"
proof -
  note T = file_closed_inv_preserved
  have i0: "file_closed_inv demo_world"
    using T [of "{}" Map.empty demo_clock "\<lambda>k. None" demo_makechan_max]
    by (simp add: demo_world_def)
  have i1: "file_closed_inv demo_no_disk"
    using T [of "{}" Map.empty demo_clock "\<lambda>k. Some ''permission denied''" demo_makechan_max]
    by (simp add: demo_no_disk_def)
  have a: "file_closed_inv demo_open" "file_closed_inv demo_written"
    "file_closed_inv demo_initialised"
    using T [of "{}" Map.empty demo_clock "\<lambda>k. None" demo_makechan_max demo_world demo_entry]
      i0 demo_open_eq demo_written_eq demo_initialised_eq by blast+
  have b: "file_closed_inv demo_closed" "file_closed_inv demo_reopened"
    using T [of "{}" Map.empty demo_clock "\<lambda>k. None" demo_makechan_max demo_open demo_entry
          "[(0, CloseCase)]" "''app''"]
      a(1) demo_closed_eq demo_reopened_eq by blast+
  have i2: "file_closed_inv demo_running"
    by (simp add: file_closed_inv_def demo_defs demo2_defs)
  have c: "file_closed_inv (demo_running\<lparr>os_steps := 4\<rparr>)"
    using T [of "{}" Map.empty demo_clock "\<lambda>k. None" demo_makechan_max demo_running]
      i2 demo_same_day_eq by blast
  have d: "file_closed_inv demo_no_disk_after"
    using T [of "{}" Map.empty demo_clock "\<lambda>k. None" demo_makechan_max demo_no_disk]
      i1 demo_no_disk_eq by blast
  show ?thesis
    using i0 i1 i2 a b c d demo_open_eq demo_written_eq demo_closed_eq demo_reopened_eq
      demo_same_day_eq demo_initialised_eq demo_no_disk_eq
    by simp
qed

section \<open>Runs of the producer and the consumer (C1, C6)\<close>

subsection \<open>A flush in a run without trouble\<close>

lemma calm_io: "calm day w \<Longrightarrow> io_error w k = None"
  by (simp add: calm_def)

lemma calm_clock: "calm day w \<Longrightarrow> clock w k (LogTimeZone w) (logFileDateFormat w) = day"
  by (simp add: calm_def)

lemma calm_updates [simp]:
  "calm day (w\<lparr>os_steps := n\<rparr>) = calm day w"
  "calm day (w\<lparr>fs_files := fs\<rparr>) = calm day w"
  "calm day (w\<lparr>fs_dirs := ds\<rparr>) = calm day w"
  "calm day (w\<lparr>console := cs\<rparr>) = calm day w"
  "calm day (w\<lparr>writeChannel := wc\<rparr>) = calm day w"
  "calm day (w\<lparr>closeChannel := cc\<rparr>) = calm day w"
  "calm day (w\<lparr>goroutines := gs\<rparr>) = calm day w"
  "calm day (w\<lparr>wg := n\<rparr>) = calm day w"
  "calm day (w\<lparr>logFile := f\<rparr>) = calm day w"
  "calm day (w\<lparr>isLogFileClosed := b\<rparr>) = calm day w"
  "calm day (w\<lparr>currentLogDate := d\<rparr>) = calm day w"
  by (simp_all add: calm_def)

lemma flushBuffer_calm:
  assumes "calm day w" "currentLogDate w = day" "logFile w = Some p"
  shows "flushBuffer w buffer = Returns (flushed p buffer w, [])"
proof -
  have "checkLogFileDate w = Returns (w\<lparr>os_steps := Suc (os_steps w)\<rparr>)"
    using assms by (simp add: checkLogFileDate_same_day calm_clock)
  from flushBuffer_written [OF this, of p buffer] assms show ?thesis
    by (simp add: calm_io flushed_def file_content_def)
qed

lemma flushed_fields [simp]:
  "calm day (flushed p b w) = calm day w"
  "currentLogDate (flushed p b w) = currentLogDate w"
  "logFile (flushed p b w) = logFile w"
  "isLogFileClosed (flushed p b w) = isLogFileClosed w"
  "closeChannel (flushed p b w) = closeChannel w"
  "writeChannel (flushed p b w) = writeChannel w"
  "wg (flushed p b w) = wg w"
  "goroutines (flushed p b w) = goroutines w"
  "LogWithColor (flushed p b w) = LogWithColor w"
  "logTicker (flushed p b w) = logTicker w"
  "file_content (flushed p b w) p = file_content w p @ persisted (LogWithColor w) (concat b)"
  "chan_len (flushed p b w) = chan_len w"
  by (simp_all add: flushed_def file_content_def chan_len_def)

lemma flushed_goroutines_commute:
  "flushed p b (w\<lparr>goroutines := gs\<rparr>) = (flushed p b w)\<lparr>goroutines := gs\<rparr>"
  by (simp add: flushed_def file_content_def)

subsection \<open>The pipeline invariant\<close>

lemma feeding_goroutines [simp]:
  "feeding c p day content (w\<lparr>goroutines := gs\<rparr>) b = feeding c p day content w b"
  by (simp add: feeding_def file_content_def)

lemma persisted_concat_append:
  "\<forall>x\<in>set xs. line_ended x \<Longrightarrow>
   persisted flag (concat xs @ rest) = persisted flag (concat xs) @ persisted flag rest"
  by (simp add: persisted_line_ended line_ended_concat)

lemma feeding_flushed:
  assumes "feeding c p day content w b"
  shows "feeding c p day content (flushed p b w) []"
proof -
  from assms obtain ch where ch: "writeChannel w = Some ch" "ch_closed ch = c"
    "\<forall>x\<in>set (b @ ch_items ch). line_ended x"
    "file_content w p @ persisted (LogWithColor w) (concat (b @ ch_items ch)) = content"
    by (auto simp: feeding_def)
  have "persisted (LogWithColor w) (concat b @ concat (ch_items ch)) =
        persisted (LogWithColor w) (concat b) @ persisted (LogWithColor w) (concat (ch_items ch))"
    using ch(3) by (intro persisted_concat_append) simp
  with assms ch show ?thesis
    by (simp add: feeding_def)
qed

lemma feeding_received:
  assumes "feeding c p day content w b" "writeChannel w = Some ch" "ch_items ch = x # xs"
  shows "feeding c p day content (w\<lparr>writeChannel := Some (ch\<lparr>ch_items := xs\<rparr>)\<rparr>) (b @ [x])"
  using assms by (auto simp: feeding_def file_content_def)

lemma feeding_received_closed:
  assumes "feeding True p day content w b"
  shows "feeding True p day content w (b @ [''''])"
  using assms by (auto simp: feeding_def)

lemma feeding_sent:
  assumes "feeding False p day content w b" "writeChannel w = Some ch" "line_ended v"
  shows "feeding False p day (content @ persisted (LogWithColor w) v)
           (w\<lparr>writeChannel := Some (ch\<lparr>ch_items := ch_items ch @ [v]\<rparr>)\<rparr>) b"
proof -
  from assms have l: "\<forall>x\<in>set (b @ ch_items ch). line_ended x"
    and e: "file_content w p @ persisted (LogWithColor w) (concat (b @ ch_items ch)) = content"
    by (auto simp: feeding_def)
  have "persisted (LogWithColor w) (concat (b @ ch_items ch) @ v) =
        persisted (LogWithColor w) (concat (b @ ch_items ch)) @ persisted (LogWithColor w) v"
    using l by (rule persisted_concat_append)
  with assms l e show ?thesis
    by (auto simp: feeding_def file_content_def)
qed

lemma flush_feeding:
  assumes "feeding c p day content w b"
  shows "flushBuffer w b = Returns (flushed p b w, [])"
  using assms by (intro flushBuffer_calm [of day]) (simp_all add: feeding_def)

subsection \<open>What one round of \<open>writeToFile\<close> does\<close>

lemma select_Recv_item:
  assumes "feeding c p day content w b" "writeChannel w = Some ch" "ch_items ch = x # xs"
  shows "writeToFile_select RecvCase w b =
           Returns (if 100 \<le> Suc (length b)
                    then (flushed p (b @ [x]) (w\<lparr>writeChannel := Some (ch\<lparr>ch_items := xs\<rparr>)\<rparr>), Some [])
                    else (w\<lparr>writeChannel := Some (ch\<lparr>ch_items := xs\<rparr>)\<rparr>, Some (b @ [x])))"
  using assms flush_feeding [OF feeding_received [OF assms]]
  by (simp add: writeToFile_select_def chan_recv_def flush_if_full_def)

lemma select_Recv_closed:
  assumes "feeding True p day content w b" "writeChannel w = Some ch" "ch_items ch = []"
  shows "writeToFile_select RecvCase w b =
           Returns (if 100 \<le> Suc (length b) then (flushed p (b @ ['''']) w, Some [])
                    else (w, Some (b @ [''''])))"
proof -
  have "ch_closed ch"
    using assms by (auto simp: feeding_def)
  then show ?thesis
    using assms flush_feeding [OF feeding_received_closed [OF assms(1)]]
    by (simp add: writeToFile_select_def chan_recv_def flush_if_full_def)
qed

lemma select_Tick:
  assumes "feeding c p day content w b"
  shows "writeToFile_select TickCase w b =
           Returns (if b \<noteq> [] then (flushed p b w, Some []) else (w, Some b))"
  using flush_feeding [OF assms]
  by (simp add: writeToFile_select_def flush_if_nonempty_def)

lemma feeding_chan_len:
  "feeding c p day content w b \<Longrightarrow> writeChannel w = Some ch \<Longrightarrow> chan_len w = length (ch_items ch)"
  by (simp add: chan_len_def)

lemma drain_feeding:
  assumes "feeding c p day content w b"
  shows "\<exists>w' b'. drain_loop w b = Returns (w', b') \<and> feeding c p day content w' b' \<and>
           chan_len w' = 0 \<and> goroutines w' = goroutines w"
  using assms
proof (induction "chan_len w" arbitrary: w b)
  case 0
  then show ?case
    by (subst drain_loop.simps) auto
next
  case (Suc n)
  from Suc.prems obtain ch where ch: "writeChannel w = Some ch"
    by (auto simp: feeding_def)
  with Suc.hyps(2) obtain x xs where xs: "ch_items ch = x # xs" "length xs = n"
    by (cases "ch_items ch") (auto simp: chan_len_def)
  let ?w1 = "w\<lparr>writeChannel := Some (ch\<lparr>ch_items := xs\<rparr>)\<rparr>"
  have f1: "feeding c p day content ?w1 (b @ [x])"
    using Suc.prems ch xs(1) by (rule feeding_received)
  have r: "chan_recv w = Returns (x, ?w1)"
    using ch xs by (simp add: chan_recv_def)
  show ?case
  proof (cases "100 \<le> length (b @ [x])")
    case True
    have f2: "feeding c p day content (flushed p (b @ [x]) ?w1) []"
      using f1 by (rule feeding_flushed)
    have "n = chan_len (flushed p (b @ [x]) ?w1)"
      using xs by (simp add: chan_len_def)
    from Suc.hyps(1) [OF this f2] obtain w' b' where
      "drain_loop (flushed p (b @ [x]) ?w1) [] = Returns (w', b')"
      "feeding c p day content w' b'" "chan_len w' = 0" "goroutines w' = goroutines w"
      by auto
    then show ?thesis
      using r True flush_feeding [OF f1] Suc.hyps(2)
      by (subst drain_loop.simps) (simp add: flush_if_full_def)
  next
    case False
    have "n = chan_len ?w1"
      using xs by (simp add: chan_len_def)
    from Suc.hyps(1) [OF this f1] obtain w' b' where
      "drain_loop ?w1 (b @ [x]) = Returns (w', b')"
      "feeding c p day content w' b'" "chan_len w' = 0" "goroutines w' = goroutines w"
      by auto
    then show ?thesis
      using r False Suc.hyps(2)
      by (subst drain_loop.simps) (simp add: flush_if_full_def)
  qed
qed

lemma feeding_drained:
  assumes "feeding c p day content w []" "chan_len w = 0"
  shows "file_content w p = content"
  using assms by (auto simp: feeding_def chan_len_def)

lemma select_Close:
  assumes "feeding c p day content w b"
  shows "\<exists>w'. writeToFile_select CloseCase w b = Returns (w', None) \<and>
           feeding c p day content w' [] \<and> chan_len w' = 0 \<and> goroutines w' = goroutines w"
proof -
  obtain w1 b1 where 1: "flush_if_nonempty w b = Returns (w1, b1)"
    "feeding c p day content w1 b1" "goroutines w1 = goroutines w"
    using assms flush_feeding [OF assms] feeding_flushed [OF assms]
    by (cases "b = []") (auto simp: flush_if_nonempty_def)
  from drain_feeding [OF 1(2)] obtain w2 b2 where 2: "drain_loop w1 b1 = Returns (w2, b2)"
    "feeding c p day content w2 b2" "chan_len w2 = 0" "goroutines w2 = goroutines w1"
    by auto
  obtain w3 b3 where 3: "flush_if_nonempty w2 b2 = Returns (w3, b3)"
    "feeding c p day content w3 []" "chan_len w3 = 0" "goroutines w3 = goroutines w2"
    using 2 flush_feeding [OF 2(2)] feeding_flushed [OF 2(2)]
    by (cases "b2 = []") (auto simp: flush_if_nonempty_def)
  show ?thesis
    using 1 2 3 by (simp add: writeToFile_select_def)
qed

lemma round_body_open:
  assumes f: "feeding False p day content w b"
    and r: "writeToFile_round gid c w b = Returns w'"
  shows "\<exists>b'. goroutines w' = (goroutines w)[gid := Running b'] \<and>
           feeding False p day content w' b' \<and> LogWithColor w' = LogWithColor w \<and>
           (c \<noteq> TickCase \<longrightarrow> length b < 100 \<longrightarrow>
              length b' < 100 \<and>
              (\<exists>j. length b' + chan_len w' + 100 * j = length b + chan_len w))"
proof -
  from f obtain ch where ch: "writeChannel w = Some ch" "\<not> ch_closed ch" "closeChannel w = Some False"
    by (auto simp: feeding_def)
  show ?thesis
  proof (cases c)
    case RecvCase
    show ?thesis
    proof (cases "ch_items ch")
      case Nil
      with ch RecvCase r have "w' = w\<lparr>goroutines := (goroutines w)[gid := Running b]\<rparr>"
        by (simp add: writeToFile_round_def select_ready_def)
      with f show ?thesis
        by (auto simp: chan_len_def)
    next
      case (Cons x xs)
      let ?w1 = "w\<lparr>writeChannel := Some (ch\<lparr>ch_items := xs\<rparr>)\<rparr>"
      have f1: "feeding False p day content ?w1 (b @ [x])"
        using f ch(1) Cons by (rule feeding_received)
      have rdy: "select_ready RecvCase w"
        using ch Cons by (simp add: select_ready_def)
      show ?thesis
      proof (cases "100 \<le> Suc (length b)")
        case True
        with r rdy RecvCase select_Recv_item [OF f ch(1) Cons]
        have w': "w' = (flushed p (b @ [x]) ?w1)\<lparr>goroutines := (goroutines w)[gid := Running []]\<rparr>"
          by (simp add: writeToFile_round_def)
        have g: "goroutines w' = (goroutines w)[gid := Running []]"
          and l: "LogWithColor w' = LogWithColor w"
          using w' by simp_all
        have fe: "feeding False p day content w' []"
          using w' feeding_flushed [OF f1] by simp
        have "length b < 100 \<Longrightarrow>
              length ([]::string list) + chan_len w' + 100 * 1 = length b + chan_len w"
          using True ch(1) Cons w' by (simp add: chan_len_def)
        then have "c \<noteq> TickCase \<longrightarrow> length b < 100 \<longrightarrow>
              length ([]::string list) < 100 \<and>
              (\<exists>j. length ([]::string list) + chan_len w' + 100 * j = length b + chan_len w)"
          by (intro impI conjI exI [of _ 1]) simp_all
        with g l fe show ?thesis
          by (intro exI [of _ "[]"]) simp
      next
        case False
        with r rdy RecvCase select_Recv_item [OF f ch(1) Cons]
        have w': "w' = ?w1\<lparr>goroutines := (goroutines w)[gid := Running (b @ [x])]\<rparr>"
          by (simp add: writeToFile_round_def)
        have g: "goroutines w' = (goroutines w)[gid := Running (b @ [x])]"
          and l: "LogWithColor w' = LogWithColor w"
          using w' by simp_all
        have fe: "feeding False p day content w' (b @ [x])"
          using w' f1 by simp
        have "length (b @ [x]) + chan_len w' + 100 * 0 = length b + chan_len w"
          using ch(1) Cons w' by (simp add: chan_len_def)
        then have "c \<noteq> TickCase \<longrightarrow> length b < 100 \<longrightarrow>
              length (b @ [x]) < 100 \<and>
              (\<exists>j. length (b @ [x]) + chan_len w' + 100 * j = length b + chan_len w)"
          using False by (intro impI conjI exI [of _ 0]) simp_all
        with g l fe show ?thesis
          by (intro exI [of _ "b @ [x]"]) simp
      qed
    qed
  next
    case TickCase
    with r select_Tick [OF f]
    have "w' = (if b \<noteq> [] then (flushed p b w)\<lparr>goroutines := (goroutines w)[gid := Running []]\<rparr>
                else w\<lparr>goroutines := (goroutines w)[gid := Running b]\<rparr>)"
      by (simp add: writeToFile_round_def select_ready_def split: if_splits)
    then show ?thesis
      using f feeding_flushed [OF f] TickCase by auto
  next
    case CloseCase
    with ch r have "w' = w\<lparr>goroutines := (goroutines w)[gid := Running b]\<rparr>"
      by (simp add: writeToFile_round_def select_ready_def)
    with f show ?thesis
      by (auto simp: chan_len_def)
  qed
qed

lemma round_body_closing:
  assumes f: "feeding True p day content w b"
    and r: "writeToFile_round gid c w b = Returns w'"
  shows "(\<exists>b'. goroutines w' = (goroutines w)[gid := Running b'] \<and>
            feeding True p day content w' b' \<and> LogWithColor w' = LogWithColor w) \<or>
         finished p day content w'"
proof -
  from f obtain ch where ch: "writeChannel w = Some ch" "ch_closed ch" "closeChannel w = Some True"
    by (auto simp: feeding_def)
  show ?thesis
  proof (cases c)
    case RecvCase
    have rdy: "select_ready RecvCase w"
      using ch by (simp add: select_ready_def)
    show ?thesis
    proof (cases "ch_items ch")
      case Nil
      from r rdy RecvCase select_Recv_closed [OF f ch(1) Nil]
      have "w' = (if 100 \<le> Suc (length b)
                  then (flushed p (b @ ['''']) w)\<lparr>goroutines := (goroutines w)[gid := Running []]\<rparr>
                  else w\<lparr>goroutines := (goroutines w)[gid := Running (b @ [''''])]\<rparr>)"
        by (simp add: writeToFile_round_def split: if_splits)
      then show ?thesis
        using feeding_received_closed [OF f] feeding_flushed [OF feeding_received_closed [OF f]]
        by auto
    next
      case (Cons x xs)
      let ?w1 = "w\<lparr>writeChannel := Some (ch\<lparr>ch_items := xs\<rparr>)\<rparr>"
      have f1: "feeding True p day content ?w1 (b @ [x])"
        using f ch(1) Cons by (rule feeding_received)
      from r rdy RecvCase select_Recv_item [OF f ch(1) Cons]
      have "w' = (if 100 \<le> Suc (length b)
                  then (flushed p (b @ [x]) ?w1)\<lparr>goroutines := (goroutines w)[gid := Running []]\<rparr>
                  else ?w1\<lparr>goroutines := (goroutines w)[gid := Running (b @ [x])]\<rparr>)"
        by (simp add: writeToFile_round_def split: if_splits)
      then show ?thesis
        using f1 feeding_flushed [OF f1] by auto
    qed
  next
    case TickCase
    with r select_Tick [OF f]
    have "w' = (if b \<noteq> [] then (flushed p b w)\<lparr>goroutines := (goroutines w)[gid := Running []]\<rparr>
                else w\<lparr>goroutines := (goroutines w)[gid := Running b]\<rparr>)"
      by (simp add: writeToFile_round_def select_ready_def split: if_splits)
    then show ?thesis
      using f feeding_flushed [OF f] by auto
  next
    case CloseCase
    from select_Close [OF f] obtain w3 where 3:
      "writeToFile_select CloseCase w b = Returns (w3, None)"
      "feeding True p day content w3 []" "chan_len w3 = 0"
      by auto
    have "wg w3 = 1"
      using 3(2) by (simp add: feeding_def)
    with r CloseCase ch 3(1)
    have "w' = w3\<lparr>wg := 0, goroutines := (goroutines w3)[gid := Exited]\<rparr>"
      by (simp add: writeToFile_round_def select_ready_def)
    then have "finished p day content w'"
      using 3(2) feeding_drained [OF 3(2) 3(3)]
      by (simp add: finished_def feeding_def file_content_def)
    then show ?thesis ..
  qed
qed

subsection \<open>Steps and runs keep the invariant\<close>

lemma waiting_round:
  assumes "waiting gid w" "writeToFile gid c w = Returns w'"
  shows "writeToFile_round gid c w (pending gid w) = Returns w'"
  using assms by (auto simp: waiting_def writeToFile_def pending_def split: if_splits)

lemma waiting_other:
  assumes "waiting gid w" "i \<noteq> gid"
  shows "writeToFile i c w = Returns w"
  using assms by (auto simp: waiting_def writeToFile_def)

lemma waiting_updated:
  assumes "waiting gid w" "goroutines w' = (goroutines w)[gid := Running b']"
  shows "waiting gid w' \<and> pending gid w' = b'"
  using assms by (auto simp: waiting_def pending_def)

lemma round_open:
  assumes p: "pipeline False gid p day content w"
    and r: "writeToFile i c w = Returns w'"
  shows "pipeline False gid p day content w' \<and> LogWithColor w' = LogWithColor w \<and>
         (c \<noteq> TickCase \<longrightarrow> tally gid n w \<longrightarrow> tally gid n w')"
proof (cases "i = gid")
  case False
  with p r waiting_other [of gid w i c] show ?thesis
    by (simp add: pipeline_def)
next
  case True
  from p have wt: "waiting gid w" and f: "feeding False p day content w (pending gid w)"
    by (simp_all add: pipeline_def)
  from waiting_round [OF wt] r True
  have "writeToFile_round gid c w (pending gid w) = Returns w'"
    by simp
  from round_body_open [OF f this] obtain b' where b':
    "goroutines w' = (goroutines w)[gid := Running b']"
    "feeding False p day content w' b'" "LogWithColor w' = LogWithColor w"
    "c \<noteq> TickCase \<longrightarrow> length (pending gid w) < 100 \<longrightarrow>
       length b' < 100 \<and>
       (\<exists>j. length b' + chan_len w' + 100 * j = length (pending gid w) + chan_len w)"
    by blast
  from waiting_updated [OF wt b'(1)] have w': "waiting gid w'" "pending gid w' = b'"
    by simp_all
  have "tally gid n w'" if "c \<noteq> TickCase" "tally gid n w"
  proof -
    from that(2) obtain k where k: "length (pending gid w) < 100"
      "length (pending gid w) + chan_len w + 100 * k = n"
      by (auto simp: tally_def)
    with b'(4) that(1) obtain j where "length b' < 100"
      "length b' + chan_len w' + 100 * j = length (pending gid w) + chan_len w"
      by blast
    with k have "length b' < 100 \<and> length b' + chan_len w' + 100 * (j + k) = n"
      by simp
    then show ?thesis
      unfolding tally_def w'(2) by blast
  qed
  with w' b' show ?thesis
    by (simp add: pipeline_def)
qed

lemma round_closing:
  assumes p: "pipeline True gid p day content w"
    and r: "writeToFile i c w = Returns w'"
  shows "(pipeline True gid p day content w' \<and> LogWithColor w' = LogWithColor w) \<or>
         finished p day content w'"
proof (cases "i = gid")
  case False
  with p r waiting_other [of gid w i c] show ?thesis
    by (simp add: pipeline_def)
next
  case True
  from p have wt: "waiting gid w" and f: "feeding True p day content w (pending gid w)"
    by (simp_all add: pipeline_def)
  from waiting_round [OF wt] r True
  have "writeToFile_round gid c w (pending gid w) = Returns w'"
    by simp
  from round_body_closing [OF f this] show ?thesis
  proof
    assume "\<exists>b'. goroutines w' = (goroutines w)[gid := Running b'] \<and>
              feeding True p day content w' b' \<and> LogWithColor w' = LogWithColor w"
    then obtain b' where b': "goroutines w' = (goroutines w)[gid := Running b']"
      "feeding True p day content w' b'" "LogWithColor w' = LogWithColor w"
      by blast
    from waiting_updated [OF wt b'(1)] b' show ?thesis
      by (simp add: pipeline_def)
  next
    assume "finished p day content w'"
    then show ?thesis ..
  qed
qed

lemma line_of_flag: "LogWithColor w = LogWithColor w0 \<Longrightarrow> line_of w l = line_of w0 l"
  by (simp add: line_of_def CreateFullLog_def)

lemma WriteSafe_open:
  assumes p: "pipeline False gid p day content w"
    and r: "WriteSafe l w = Returns w'"
  shows "pipeline False gid p day (content @ persisted (LogWithColor w) (line_of w l)) w' \<and>
         LogWithColor w' = LogWithColor w \<and> (tally gid n w \<longrightarrow> tally gid (Suc n) w')"
proof -
  from p have wt: "waiting gid w" and f: "feeding False p day content w (pending gid w)"
    by (simp_all add: pipeline_def)
  from f obtain ch where ch: "writeChannel w = Some ch" "\<not> ch_closed ch" "logFile w = Some p"
    by (auto simp: feeding_def)
  let ?w' = "w\<lparr>writeChannel := Some (ch\<lparr>ch_items := ch_items ch @ [line_of w l]\<rparr>)\<rparr>"
  from r ch have w': "w' = ?w'"
    by (simp add: WriteSafe_def chan_send_def line_of_def split: if_splits)
  have "feeding False p day (content @ persisted (LogWithColor w) (line_of w l)) ?w' (pending gid w)"
    using f ch(1) by (rule feeding_sent) (simp add: line_of_def)
  moreover have "waiting gid ?w'" "pending gid ?w' = pending gid w"
    using wt by (simp_all add: waiting_def pending_def)
  moreover have "chan_len ?w' = Suc (chan_len w)"
    using ch(1) by (simp add: chan_len_def)
  ultimately show ?thesis
    unfolding w' by (auto simp: pipeline_def tally_def)
qed

lemma initLog_calm:
  assumes "calm day w" "initLog w = Returns (e, w1)"
  shows "e = None \<and> logFile w1 = Some (log_path w day) \<and> \<not> isLogFileClosed w1 \<and>
         closeChannel w1 = Some False \<and> wg w1 = Suc (wg w) \<and>
         goroutines w1 = goroutines w @ [Spawned] \<and>
         writeChannel w1 = Some \<lparr>ch_items = [], ch_cap = nat (channelSize w), ch_closed = False\<rparr> \<and>
         currentLogDate w1 = day \<and> calm day w1 \<and> LogWithColor w1 = LogWithColor w \<and>
         file_content w1 (log_path w day) = file_content w (log_path w day)"
  using assms
  by (auto simp: initLog_def os_defs log_path_def calm_io calm_clock file_content_def Let_def
      split: if_splits option.splits)

lemma WriteSafe_idle:
  assumes i: "idle w" and c: "calm day w" and r: "WriteSafe l w = Returns w'"
  shows "pipeline False (length (goroutines w)) (log_path w day) day
           (file_content w (log_path w day) @ persisted (LogWithColor w) (line_of w l)) w' \<and>
         LogWithColor w' = LogWithColor w \<and> tally (length (goroutines w)) 1 w'"
proof -
  let ?p = "log_path w day" and ?gid = "length (goroutines w)"
  from i have n: "logFile w = None"
    by (simp add: idle_def)
  with r obtain e w1 where 1: "initLog w = Returns (e, w1)"
    by (auto simp: WriteSafe_def Let_def split: outcome.splits)
  note I = initLog_calm [OF c 1]
  let ?ch = "\<lparr>ch_items = [], ch_cap = nat (channelSize w), ch_closed = False\<rparr>"
  let ?w' = "w1\<lparr>writeChannel := Some (?ch\<lparr>ch_items := ch_items ?ch @ [line_of w l]\<rparr>)\<rparr>"
  from r n 1 I have w': "w' = ?w'"
    by (auto simp: WriteSafe_def chan_send_def line_of_def Let_def split: if_splits)
  have f1: "feeding False ?p day (file_content w ?p) w1 []"
    using I i by (simp add: feeding_def idle_def)
  have "feeding False ?p day (file_content w ?p @ persisted (LogWithColor w1) (line_of w l)) ?w' []"
    using f1 by (rule feeding_sent) (simp_all add: I line_of_def)
  moreover have "waiting ?gid ?w'" "pending ?gid ?w' = []"
    using I i by (auto simp: waiting_def pending_def idle_def nth_append)
  moreover have "chan_len ?w' = 1"
    by (simp add: chan_len_def)
  ultimately show ?thesis
    unfolding w' using I by (auto simp: pipeline_def tally_def)
qed

lemma idle_round:
  assumes "idle w"
  shows "writeToFile i c w = Returns w"
proof (cases "i < length (goroutines w)")
  case True
  then have "goroutines w ! i \<in> set (goroutines w)"
    by simp
  with assms have "goroutines w ! i = Exited"
    by (simp add: idle_def)
  with True show ?thesis
    by (simp add: writeToFile_def)
next
  case False
  then show ?thesis
    by (simp add: writeToFile_def)
qed

lemma run_open:
  assumes "pipeline False gid p day content w" "LogWithColor w = LogWithColor w0"
    and "run tr w = Returns w'"
  shows "pipeline False gid p day
           (content @ concat (map (\<lambda>l. persisted (LogWithColor w0) (line_of w0 l)) (written_entries tr))) w' \<and>
         ((\<forall>i. Round i TickCase \<notin> set tr) \<longrightarrow> tally gid n w \<longrightarrow>
            tally gid (n + length (written_entries tr)) w')"
  using assms
proof (induction tr arbitrary: w content n)
  case Nil
  then show ?case by simp
next
  case (Cons a tr)
  from Cons.prems(3) obtain w1 where s: "step a w = Returns w1" and t: "run tr w1 = Returns w'"
    by (auto split: outcome.splits)
  show ?case
  proof (cases a)
    case (Call_WriteSafe l)
    with s have "WriteSafe l w = Returns w1"
      by (simp add: step_def)
    from WriteSafe_open [OF Cons.prems(1) this, of n]
    have 1: "pipeline False gid p day (content @ persisted (LogWithColor w) (line_of w l)) w1"
      "LogWithColor w1 = LogWithColor w0" "tally gid n w \<longrightarrow> tally gid (Suc n) w1"
      using Cons.prems(2) by simp_all
    from Cons.IH [OF 1(1) 1(2) t, of "Suc n"] 1(3) Call_WriteSafe Cons.prems(2)
    show ?thesis
      by (simp add: line_of_flag [of w w0])
  next
    case (Round i c)
    with s have "writeToFile i c w = Returns w1"
      by (simp add: step_def)
    from round_open [OF Cons.prems(1) this, of n]
    have 1: "pipeline False gid p day content w1" "LogWithColor w1 = LogWithColor w0"
      "c \<noteq> TickCase \<longrightarrow> tally gid n w \<longrightarrow> tally gid n w1"
      using Cons.prems(2) by simp_all
    from Cons.IH [OF 1(1) 1(2) t, of n] 1(3) Round
    show ?thesis
      by auto
  qed
qed

lemma run_idle:
  assumes "idle w0" "calm day w0" "run tr w0 = Returns w'"
  shows "(written_entries tr = [] \<and> w' = w0) \<or>
         (pipeline False (length (goroutines w0)) (log_path w0 day) day
            (file_content w0 (log_path w0 day) @
             concat (map (\<lambda>l. persisted (LogWithColor w0) (line_of w0 l)) (written_entries tr))) w' \<and>
          ((\<forall>i. Round i TickCase \<notin> set tr) \<longrightarrow>
             tally (length (goroutines w0)) (length (written_entries tr)) w'))"
  using assms(3)
proof (induction tr)
  case Nil
  then show ?case by simp
next
  case (Cons a tr)
  from Cons.prems obtain w1 where s: "step a w0 = Returns w1" and t: "run tr w1 = Returns w'"
    by (auto split: outcome.splits)
  show ?case
  proof (cases a)
    case (Call_WriteSafe l)
    with s have "WriteSafe l w0 = Returns w1"
      by (simp add: step_def)
    from WriteSafe_idle [OF assms(1,2) this]
    have 1: "pipeline False (length (goroutines w0)) (log_path w0 day) day
           (file_content w0 (log_path w0 day) @ persisted (LogWithColor w0) (line_of w0 l)) w1"
      "LogWithColor w1 = LogWithColor w0" "tally (length (goroutines w0)) 1 w1"
      by simp_all
    from run_open [OF 1(1) 1(2) t, of 1] 1(3) Call_WriteSafe
    show ?thesis
      by simp
  next
    case (Round i c)
    with s idle_round [OF assms(1), of i c] have "w1 = w0"
      by (simp add: step_def)
    with Cons.IH t Round show ?thesis
      by auto
  qed
qed

subsection \<open>\<open>CloseLogFile\<close> drains the pipeline\<close>

lemma pipeline_closing:
  assumes "pipeline False gid p day content w" "writeChannel w = Some ch"
  shows "pipeline True gid p day content
           (w\<lparr>closeChannel := Some True, writeChannel := Some (ch\<lparr>ch_closed := True\<rparr>)\<rparr>)"
  using assms
  by (auto simp: pipeline_def feeding_def waiting_def pending_def file_content_def)

lemma wg_Wait_finished: "wg w = 0 \<Longrightarrow> wg_Wait sched w = Returns w"
  by (cases sched) auto

lemma wg_Wait_closing:
  assumes "pipeline True gid p day content w" "wg_Wait sched w = Returns w'"
  shows "finished p day content w'"
  using assms
proof (induction sched arbitrary: w)
  case Nil
  then show ?case
    by (simp add: pipeline_def feeding_def)
next
  case (Cons a sched)
  obtain i c where a: "a = (i, c)"
    by (cases a)
  have "wg w \<noteq> 0"
    using Cons.prems(1) by (simp add: pipeline_def feeding_def)
  with Cons.prems(2) a obtain w1 where 1: "writeToFile i c w = Returns w1"
    "wg_Wait sched w1 = Returns w'"
    by (auto split: outcome.splits)
  from round_closing [OF Cons.prems(1) 1(1)] show ?case
  proof
    assume "pipeline True gid p day content w1 \<and> LogWithColor w1 = LogWithColor w"
    with Cons.IH 1(2) show ?thesis
      by blast
  next
    assume f: "finished p day content w1"
    then have "wg w1 = 0"
      by (simp add: finished_def)
    with 1(2) f show ?thesis
      by (simp add: wg_Wait_finished)
  qed
qed

lemma close_pipeline:
  assumes p: "pipeline False gid p day content w"
    and r: "CloseLogFile sched w = Returns w'"
  shows "file_content w' p = content"
proof -
  from p obtain ch where ch: "writeChannel w = Some ch" "\<not> ch_closed ch"
    "closeChannel w = Some False" "logFile w = Some p" "\<not> isLogFileClosed w"
    by (auto simp: pipeline_def feeding_def)
  let ?w2 = "w\<lparr>closeChannel := Some True, writeChannel := Some (ch\<lparr>ch_closed := True\<rparr>)\<rparr>"
  from r ch obtain w3 where 3: "wg_Wait sched ?w2 = Returns w3"
    and w': "(case os_Close (logFile w3) w3 of
               (None, w4) \<Rightarrow> Returns (w4\<lparr>isLogFileClosed := True, logFile := None\<rparr>)
             | (Some err, w4) \<Rightarrow> Exits) = Returns w'"
    by (auto simp: CloseLogFile_def CloseLogFile_with_def close_closeChannel_def
        close_writeChannel_def split: outcome.splits)
  from wg_Wait_closing [OF pipeline_closing [OF p ch(1)] 3]
  have f: "finished p day content w3" .
  then have "io_error w3 (os_steps w3) = None" "logFile w3 = Some p"
    by (simp_all add: finished_def calm_def)
  then have "w' = w3\<lparr>os_steps := Suc (os_steps w3), isLogFileClosed := True, logFile := None\<rparr>"
    using w' by (simp add: os_Close_def)
  with f show ?thesis
    by (simp add: finished_def file_content_def)
qed

text \<open>
  Claim C1, as amended. Take a writer that is idle, any run of one producer that calls
  \<open>WriteSafe\<close> for N entries, interleaved in any way with rounds of the consumer, and
  then \<open>CloseLogFile\<close> with any schedule of the consumer. If no file operation fails, the
  date does not change and the colour flag is not changed during the run, then once
  \<open>CloseLogFile\<close> has returned the log file holds what it held before followed by
  exactly the N lines in the order of the calls, each passed through \<open>stripColors\<close> when
  the colour flag is on and as it was sent when the flag is off.
\<close>

theorem enqueued_lines_persisted:
  assumes "idle w0"
    and "calm day w0"
    and "run tr w0 = Returns w1"
    and "CloseLogFile sched w1 = Returns w2"
  shows "file_content w2 (log_path w0 day) =
           file_content w0 (log_path w0 day) @
           concat (map (\<lambda>l. persisted (LogWithColor w0) (line_of w0 l)) (written_entries tr))"
  using run_idle [OF assms(1-3)]
proof
  assume "written_entries tr = [] \<and> w1 = w0"
  moreover from assms(1) have "CloseLogFile sched w0 = Returns w0"
    by (simp add: idle_def CloseLogFile_def CloseLogFile_with_def)
  ultimately show ?thesis
    using assms(4) by simp
next
  assume "pipeline False (length (goroutines w0)) (log_path w0 day) day
            (file_content w0 (log_path w0 day) @
             concat (map (\<lambda>l. persisted (LogWithColor w0) (line_of w0 l)) (written_entries tr))) w1 \<and>
          ((\<forall>i. Round i TickCase \<notin> set tr) \<longrightarrow>
             tally (length (goroutines w0)) (length (written_entries tr)) w1)"
  then show ?thesis
    using close_pipeline assms(4) by blast
qed

lemma demo_idle: "idle demo_world"
  by (simp add: idle_def demo_defs)

lemma demo_calm: "calm ''2024-01-01'' demo_world"
  by (simp add: calm_def demo_defs)

lemma demo_busy_eq:
  "run [Call_WriteSafe demo_entry, Round 0 RecvCase, Call_WriteSafe demo_entry,
        Round 0 TickCase, Call_WriteSafe demo_entry] demo_world = Returns demo_busy"
  by (simp add: step_def WriteSafe_def initLog_def chan_send_def CreateFullLog_def
      consumer_defs os_defs demo_defs demo2_defs demo_busy_def
      stripColors_def replacements_def color_defs newline_def)

lemma demo_three_eq:
  "CloseLogFile [(0, RecvCase), (0, CloseCase)] demo_busy = Returns demo_three"
  by (simp add: close_defs consumer_defs os_defs demo_defs demo2_defs demo3_defs demo_busy_def
      demo_three_def stripColors_def replacements_def color_defs newline_def)

theorem enqueued_lines_persisted_witness:
  "idle demo_world \<and> calm ''2024-01-01'' demo_world \<and>
   run [Call_WriteSafe demo_entry, Round 0 RecvCase, Call_WriteSafe demo_entry,
        Round 0 TickCase, Call_WriteSafe demo_entry] demo_world = Returns demo_busy \<and>
   CloseLogFile [(0, RecvCase), (0, CloseCase)] demo_busy = Returns demo_three \<and>
   file_content demo_three ''./logs/log-2024-01-01.log'' =
     ''[12:00]  info  A'' @ newline @ ''[12:00]  info  A'' @ newline @
     ''[12:00]  info  A'' @ newline"
proof -
  have "persisted True (line_of demo_world demo_entry) = ''[12:00]  info  A'' @ newline"
    by (simp add: persisted_def line_of_def CreateFullLog_def demo_defs
        stripColors_def replacements_def color_defs newline_def)
  with enqueued_lines_persisted [OF demo_idle demo_calm demo_busy_eq demo_three_eq]
  have "file_content demo_three ''./logs/log-2024-01-01.log'' =
     ''[12:00]  info  A'' @ newline @ ''[12:00]  info  A'' @ newline @
     ''[12:00]  info  A'' @ newline"
    by (simp add: log_path_def file_content_def demo_world_def init_world_def)
  with demo_idle demo_calm demo_busy_eq demo_three_eq show ?thesis
    by simp
qed

text \<open>
  The claim as the spec states it (the lines are always stripped) is false: after
  \<open>WriteSafe\<close> of a colourised line, \<open>SetLogWithColor(false)\<close> and \<open>CloseLogFile\<close>, the
  file holds the line with its colour codes.
\<close>

theorem enqueued_lines_counterexample:
  "run [Call_WriteSafe demo_entry] demo_world = Returns demo_open \<and>
   CloseLogFile [(0, CloseCase)] (SetLogWithColor False demo_open) = Returns demo_unstripped \<and>
   file_content demo_unstripped ''./logs/log-2024-01-01.log'' = demo_line \<and>
   ESC \<in> set demo_line \<and> stripColors demo_line \<noteq> demo_line"
proof -
  have "run [Call_WriteSafe demo_entry] demo_world = Returns demo_open"
    by (simp add: step_def demo_open_eq)
  moreover have "CloseLogFile [(0, CloseCase)] (SetLogWithColor False demo_open) =
                 Returns demo_unstripped"
    by (simp add: SetLogWithColor_def close_defs consumer_defs os_defs demo_defs demo2_defs
        demo3_defs demo_unstripped_def)
  moreover have "file_content demo_unstripped ''./logs/log-2024-01-01.log'' = demo_line"
    by (simp add: demo_unstripped_def file_content_def)
  moreover have "ESC \<in> set demo_line" "stripColors demo_line \<noteq> demo_line"
    by (simp_all add: demo_line_def stripColors_def replacements_def color_defs newline_def)
  ultimately show ?thesis
    by simp
qed

text \<open>
  \<open>CloseLogFile\<close> does return: it is enough that the consumer takes the \<open>closeChannel\<close>
  case once.
\<close>

lemma close_returns:
  assumes p: "pipeline False gid p day content w" and t: "0 < logTicker w"
  shows "\<exists>w'. CloseLogFile ((gid, CloseCase) # sched) w = Returns w'"
proof -
  from p obtain ch where ch: "writeChannel w = Some ch" "\<not> ch_closed ch"
    "closeChannel w = Some False" "logFile w = Some p" "\<not> isLogFileClosed w"
    by (auto simp: pipeline_def feeding_def)
  let ?w2 = "w\<lparr>closeChannel := Some True, writeChannel := Some (ch\<lparr>ch_closed := True\<rparr>)\<rparr>"
  have p2: "pipeline True gid p day content ?w2"
    using p ch(1) by (rule pipeline_closing)
  then have wt: "waiting gid ?w2" and f: "feeding True p day content ?w2 (pending gid ?w2)"
    by (simp_all add: pipeline_def)
  from select_Close [OF f] obtain w3 where 3:
    "writeToFile_select CloseCase ?w2 (pending gid ?w2) = Returns (w3, None)"
    "feeding True p day content w3 []"
    by auto
  let ?w4 = "w3\<lparr>wg := 0, goroutines := (goroutines w3)[gid := Exited]\<rparr>"
  have "wg w3 = 1"
    using 3(2) by (simp add: feeding_def)
  then have "writeToFile_round gid CloseCase ?w2 (pending gid ?w2) = Returns ?w4"
    using 3(1) by (simp add: writeToFile_round_def select_ready_def)
  then have "writeToFile gid CloseCase ?w2 = Returns ?w4"
    using wt t by (auto simp: writeToFile_def waiting_def pending_def)
  then have "wg_Wait ((gid, CloseCase) # sched) ?w2 = Returns ?w4"
    using f by (simp add: feeding_def wg_Wait_finished)
  moreover have "logFile ?w4 = Some p" "io_error ?w4 (os_steps ?w4) = None"
    using 3(2) by (simp_all add: feeding_def calm_def)
  ultimately show ?thesis
    using ch by (simp add: CloseLogFile_def CloseLogFile_with_def close_closeChannel_def
        close_writeChannel_def os_Close_def)
qed

subsection \<open>A hundred lines (C6)\<close>

text \<open>A send followed by a receive moves one line into the buffer.\<close>

lemma writeChannel_same: "writeChannel w = x \<Longrightarrow> w\<lparr>writeChannel := x\<rparr> = w"
  by (cases w) auto

lemma send_receive:
  assumes "logFile w \<noteq> None" "writeChannel w = Some ch" "\<not> ch_closed ch" "ch_items ch = []"
    "0 < ch_cap ch" "gid < length (goroutines w)" "goroutines w ! gid = Running b"
    "Suc (length b) < 100"
  shows "run [Call_WriteSafe l, Round gid RecvCase] w =
           Returns (w\<lparr>goroutines := (goroutines w)[gid := Running (b @ [line_of w l])]\<rparr>)"
proof -
  let ?w1 = "w\<lparr>writeChannel := Some (ch\<lparr>ch_items := [line_of w l]\<rparr>)\<rparr>"
  have 1: "WriteSafe l w = Returns ?w1"
    using assms by (auto simp: WriteSafe_def chan_send_def line_of_def)
  have "ch\<lparr>ch_items := []\<rparr> = ch"
    using assms(4) by (cases ch) auto
  then have "?w1\<lparr>writeChannel := Some (ch\<lparr>ch_items := []\<rparr>)\<rparr> = w"
    using assms(2) by (simp add: writeChannel_same)
  then have 2: "writeToFile gid RecvCase ?w1 =
           Returns (w\<lparr>goroutines := (goroutines w)[gid := Running (b @ [line_of w l])]\<rparr>)"
    using assms
    by (simp add: writeToFile_def writeToFile_round_def select_ready_def writeToFile_select_def
        chan_recv_def flush_if_full_def)
  from 1 2 show ?thesis
    by (simp add: step_def)
qed

lemma run_pairs:
  assumes "logFile w \<noteq> None" "writeChannel w = Some ch" "\<not> ch_closed ch" "ch_items ch = []"
    "0 < ch_cap ch" "gid < length (goroutines w)" "goroutines w ! gid = Running b"
    "length b + n < 100"
  shows "run (concat (replicate n [Call_WriteSafe l, Round gid RecvCase])) w =
           Returns (w\<lparr>goroutines := (goroutines w)[gid := Running (b @ replicate n (line_of w l))]\<rparr>)"
  using assms
proof (induction n arbitrary: w b)
  case 0
  have "(goroutines w)[gid := Running b] = goroutines w"
    using "0.prems"(7) by (metis list_update_id)
  then show ?case
    by (cases w) auto
next
  case (Suc n)
  let ?w1 = "w\<lparr>goroutines := (goroutines w)[gid := Running (b @ [line_of w l])]\<rparr>"
  have 1: "run [Call_WriteSafe l, Round gid RecvCase] w = Returns ?w1"
    using Suc.prems by (intro send_receive) simp_all
  have 2: "run (concat (replicate n [Call_WriteSafe l, Round gid RecvCase])) ?w1 =
        Returns (?w1\<lparr>goroutines := (goroutines ?w1)[gid :=
           Running ((b @ [line_of w l]) @ replicate n (line_of ?w1 l))]\<rparr>)"
    using Suc.prems by (intro Suc.IH) simp_all
  have "line_of ?w1 l = line_of w l"
    by (rule line_of_flag) simp
  with run_append [OF 1, of "concat (replicate n [Call_WriteSafe l, Round gid RecvCase])"] 2
  show ?case
    by (simp add: replicate_app_Cons_same)
qed

text \<open>
  The threshold itself, whatever the state of the disk and the clock: a receive that
  brings the buffer to 100 lines or more calls \<open>flushBuffer\<close> in the same round; below
  that the line is only appended.
\<close>

lemma receive_at_threshold:
  assumes "chan_recv w = Returns (logEntry, w1)"
  shows "writeToFile_select RecvCase w buffer =
     (if 99 \<le> length buffer
      then (case flushBuffer w1 (buffer @ [logEntry]) of
              Returns (w2, buffer2) \<Rightarrow> Returns (w2, Some buffer2)
            | Blocks b \<Rightarrow> Blocks b | Panics \<Rightarrow> Panics | Exits \<Rightarrow> Exits)
      else Returns (w1, Some (buffer @ [logEntry])))"
proof (cases "99 \<le> length buffer")
  case True
  then have "100 \<le> length (buffer @ [logEntry])"
    by simp
  with assms True show ?thesis
    by (simp add: writeToFile_select_def flush_if_full_def del: length_append)
next
  case False
  then have "\<not> 100 \<le> length (buffer @ [logEntry])"
    by simp
  with assms False show ?thesis
    by (simp add: writeToFile_select_def flush_if_full_def del: length_append)
qed

text \<open>
  Claim C6, as amended. Take a writer that is idle and a run in which no file operation
  fails, the date does not change and the ticker never fires. Once the producer has
  called \<open>WriteSafe\<close> exactly 100 times and the consumer has received every line (the
  queue is empty), the 100 lines are in the file, in the order of the calls, and the
  buffer is empty: the receive that brought the buffer to the threshold of 100 lines
  flushed them in the same round, without waiting for the timer.
\<close>

theorem hundred_lines_flushed:
  assumes "idle w0"
    and "calm day w0"
    and "run tr w0 = Returns w'"
    and "\<forall>i. Round i TickCase \<notin> set tr"
    and "length (written_entries tr) = 100"
    and "chan_len w' = 0"
  shows "file_content w' (log_path w0 day) =
           file_content w0 (log_path w0 day) @
           concat (map (\<lambda>l. persisted (LogWithColor w0) (line_of w0 l)) (written_entries tr)) \<and>
         pending (length (goroutines w0)) w' = []"
  using run_idle [OF assms(1-3)]
proof
  assume "written_entries tr = [] \<and> w' = w0"
  with assms(5) show ?thesis
    by simp
next
  let ?gid = "length (goroutines w0)"
  assume "pipeline False ?gid (log_path w0 day) day
            (file_content w0 (log_path w0 day) @
             concat (map (\<lambda>l. persisted (LogWithColor w0) (line_of w0 l)) (written_entries tr))) w' \<and>
          ((\<forall>i. Round i TickCase \<notin> set tr) \<longrightarrow> tally ?gid (length (written_entries tr)) w')"
  with assms(4,5) have p: "feeding False (log_path w0 day) day
            (file_content w0 (log_path w0 day) @
             concat (map (\<lambda>l. persisted (LogWithColor w0) (line_of w0 l)) (written_entries tr)))
            w' (pending ?gid w')"
    and t: "tally ?gid 100 w'"
    by (simp_all add: pipeline_def)
  from t assms(6) obtain k where "length (pending ?gid w') < 100"
    "length (pending ?gid w') + 100 * k = 100"
    by (auto simp: tally_def)
  then have e: "pending ?gid w' = []"
    by (cases k) auto
  with p feeding_drained [OF _ assms(6)] show ?thesis
    by simp
qed

lemma demo_running_eq:
  "run [Call_WriteSafe demo_entry, Round 0 RecvCase] demo_world = Returns demo_running"
  by (simp add: step_def WriteSafe_def initLog_def chan_send_def CreateFullLog_def
      consumer_defs os_defs demo_defs demo2_defs)

lemma demo_line_eq: "line_of demo_running demo_entry = demo_line"
  by (simp add: line_of_def CreateFullLog_def demo_defs demo2_defs)

lemma demo_ninety_nine_eq:
  "run (concat (replicate 98 [Call_WriteSafe demo_entry, Round 0 RecvCase])) demo_running =
     Returns demo_ninety_nine"
proof -
  have "run (concat (replicate 98 [Call_WriteSafe demo_entry, Round 0 RecvCase])) demo_running =
     Returns (demo_running\<lparr>goroutines := (goroutines demo_running)[0 :=
        Running ([demo_line] @ replicate 98 (line_of demo_running demo_entry))]\<rparr>)"
    by (rule run_pairs [where ch = "\<lparr>ch_items = [], ch_cap = 300, ch_closed = False\<rparr>"])
      (simp_all add: demo_defs demo2_defs)
  moreover have "(goroutines demo_running)[0 :=
        Running ([demo_line] @ replicate 98 (line_of demo_running demo_entry))] =
        [Running (replicate 99 demo_line)]"
    unfolding demo_line_eq replicate_Suc_numeral by (simp add: demo_running_def)
  ultimately show ?thesis
    by (simp only: demo_ninety_nine_def)
qed

lemma demo_stripped: "stripColors demo_line = ''[12:00]  info  A'' @ newline"
  by (simp add: stripColors_def replacements_def color_defs newline_def demo_line_def)

lemma demo_line_ended: "line_ended demo_line"
  by (simp add: demo_line_def line_ended_def newline_def)

lemma demo_hundred_stripped:
  "stripColors (concat (replicate 99 demo_line) @ demo_line) =
   concat (replicate 100 (''[12:00]  info  A'' @ newline))"
proof -
  have "concat (replicate 99 demo_line) @ demo_line = concat (replicate 100 demo_line)"
    unfolding replicate_Suc_numeral(2) by simp
  moreover have "persisted True (concat (replicate 100 demo_line)) =
                 concat (map (persisted True) (replicate 100 demo_line))"
    by (rule persisted_concat) (simp add: demo_line_ended)
  ultimately show ?thesis
    by (simp add: persisted_def demo_stripped)
qed

lemma demo_hundred_eq:
  "run [Call_WriteSafe demo_entry, Round 0 RecvCase] demo_ninety_nine = Returns demo_hundred"
proof -
  let ?w = "demo_ninety_nine
     \<lparr>writeChannel := Some \<lparr>ch_items = [demo_line], ch_cap = 300, ch_closed = False\<rparr>\<rparr>"
  have "WriteSafe demo_entry demo_ninety_nine = Returns ?w"
    by (simp add: WriteSafe_def chan_send_def CreateFullLog_def demo_defs demo2_defs
        demo_ninety_nine_def)
  moreover have "writeToFile 0 RecvCase ?w = Returns demo_hundred"
    by (simp add: consumer_defs os_defs demo_world_def demo_clock_def demo_makechan_max_def
        init_world_def
        demo2_defs demo_ninety_nine_def demo_hundred_def demo_hundred_stripped)
  ultimately show ?thesis
    by (simp add: step_def)
qed

lemma written_entries_pairs:
  "written_entries (concat (replicate n [Call_WriteSafe l, Round g c])) = replicate n l"
  by (induction n) simp_all

lemma demo_trace_eq: "run demo_trace demo_world = Returns demo_hundred"
proof -
  let ?pair = "[Call_WriteSafe demo_entry, Round 0 RecvCase]"
  have "replicate 100 ?pair = (?pair # replicate 98 ?pair) @ [?pair]"
    by (simp only: replicate_Suc_numeral)
  then have "demo_trace = ?pair @ concat (replicate 98 ?pair) @ ?pair"
    by (simp add: demo_trace_def)
  then show ?thesis
    using run_append [OF demo_running_eq, of "concat (replicate 98 ?pair) @ ?pair"]
      run_append [OF demo_ninety_nine_eq, of ?pair] demo_hundred_eq
    by simp
qed

theorem hundred_lines_flushed_witness:
  "idle demo_world \<and> calm ''2024-01-01'' demo_world \<and>
   run demo_trace demo_world = Returns demo_hundred \<and>
   (\<forall>i. Round i TickCase \<notin> set demo_trace) \<and>
   length (written_entries demo_trace) = 100 \<and>
   chan_len demo_hundred = 0 \<and>
   file_content demo_hundred ''./logs/log-2024-01-01.log'' =
     concat (replicate 100 (''[12:00]  info  A'' @ newline)) \<and>
   pending 0 demo_hundred = []"
proof -
  have t: "\<forall>i. Round i TickCase \<notin> set demo_trace"
    by (simp add: demo_trace_def)
  have n: "length (written_entries demo_trace) = 100"
    by (simp add: demo_trace_def written_entries_pairs)
  have c: "chan_len demo_hundred = 0"
    by (simp add: chan_len_def demo_hundred_def demo2_defs)
  have s: "persisted True (line_of demo_world demo_entry) = ''[12:00]  info  A'' @ newline"
    by (simp add: persisted_def line_of_def CreateFullLog_def demo_defs
        stripColors_def replacements_def color_defs newline_def)
  from hundred_lines_flushed [OF demo_idle demo_calm demo_trace_eq t n c] s
  have "file_content demo_hundred ''./logs/log-2024-01-01.log'' =
     concat (replicate 100 (''[12:00]  info  A'' @ newline)) \<and>
   pending 0 demo_hundred = []"
    by (simp add: log_path_def file_content_def demo_world_def init_world_def demo_trace_def
        written_entries_pairs map_replicate_const)
  with demo_idle demo_calm demo_trace_eq t n c show ?thesis
    by simp
qed

lemma demo_line_full_eq: "line_of demo_disk_full demo_entry = demo_line"
  by (simp add: line_of_def CreateFullLog_def demo_defs demo2_defs)

lemma demo_disk_full_99:
  "run (concat (replicate 98 [Call_WriteSafe demo_entry, Round 0 RecvCase])) demo_disk_full =
     Returns (demo_disk_full\<lparr>goroutines := [Running (replicate 99 demo_line)]\<rparr>)"
proof -
  have "run (concat (replicate 98 [Call_WriteSafe demo_entry, Round 0 RecvCase])) demo_disk_full =
     Returns (demo_disk_full\<lparr>goroutines := (goroutines demo_disk_full)[0 :=
        Running ([demo_line] @ replicate 98 (line_of demo_disk_full demo_entry))]\<rparr>)"
    by (rule run_pairs [where ch = "\<lparr>ch_items = [], ch_cap = 300, ch_closed = False\<rparr>"])
      (simp_all add: demo_defs demo2_defs)
  moreover have "(goroutines demo_disk_full)[0 :=
        Running ([demo_line] @ replicate 98 (line_of demo_disk_full demo_entry))] =
        [Running (replicate 99 demo_line)]"
    unfolding demo_line_full_eq replicate_Suc_numeral by (simp add: demo_defs demo2_defs)
  ultimately show ?thesis
    by simp
qed

lemma demo_hundred_kept_eq:
  "run [Call_WriteSafe demo_entry, Round 0 RecvCase]
     (demo_disk_full\<lparr>goroutines := [Running (replicate 99 demo_line)]\<rparr>) =
   Returns demo_hundred_kept"
proof -
  let ?u = "demo_disk_full\<lparr>goroutines := [Running (replicate 99 demo_line)]\<rparr>"
  let ?w = "?u\<lparr>writeChannel := Some \<lparr>ch_items = [demo_line], ch_cap = 300, ch_closed = False\<rparr>\<rparr>"
  have "WriteSafe demo_entry ?u = Returns ?w"
    by (simp add: WriteSafe_def chan_send_def CreateFullLog_def demo_defs demo2_defs)
  moreover have "writeToFile 0 RecvCase ?w = Returns demo_hundred_kept"
    by (simp add: consumer_defs os_defs demo_world_def demo_clock_def demo_makechan_max_def
        init_world_def
        demo2_defs demo_hundred_kept_def replicate_Suc_numeral(2))
  ultimately show ?thesis
    by (simp add: step_def)
qed

lemma demo_trace_split:
  "demo_trace = [Call_WriteSafe demo_entry, Round 0 RecvCase] @
     concat (replicate 98 [Call_WriteSafe demo_entry, Round 0 RecvCase]) @
     [Call_WriteSafe demo_entry, Round 0 RecvCase]"
proof -
  let ?pair = "[Call_WriteSafe demo_entry, Round 0 RecvCase]"
  have "replicate 100 ?pair = (?pair # replicate 98 ?pair) @ [?pair]"
    by (simp only: replicate_Suc_numeral)
  then show ?thesis
    by (simp add: demo_trace_def)
qed

text \<open>
  The claim as the spec states it (100 lines enqueued are always in the file) is false:
  when the write of the flush at the threshold fails, \<open>flushBuffer\<close> reports the error
  and returns, so after 100 lines sent and received without a tick the file is still
  empty and the 100 lines are in the buffer.
\<close>

theorem hundred_lines_counterexample:
  "run demo_trace demo_disk_full_start = Returns demo_hundred_kept \<and>
   idle demo_disk_full_start \<and>
   (\<forall>i. Round i TickCase \<notin> set demo_trace) \<and>
   length (written_entries demo_trace) = 100 \<and>
   chan_len demo_hundred_kept = 0 \<and>
   file_content demo_hundred_kept ''./logs/log-2024-01-01.log'' = '''' \<and>
   pending 0 demo_hundred_kept = replicate 100 demo_line \<and>
   console demo_hundred_kept = [''[error] no space left on device'']"
proof -
  have "run demo_trace demo_disk_full_start = Returns demo_hundred_kept"
    unfolding demo_trace_split
    using run_append [OF demo_reached [THEN conjunct1]] run_append [OF demo_disk_full_99]
      demo_hundred_kept_eq
    by simp
  moreover have "idle demo_disk_full_start"
    by (simp add: idle_def demo_disk_full_start_def init_world_def)
  moreover have "\<forall>i. Round i TickCase \<notin> set demo_trace"
    by (simp add: demo_trace_def)
  moreover have "length (written_entries demo_trace) = 100"
    by (simp add: demo_trace_def written_entries_pairs)
  moreover have "chan_len demo_hundred_kept = 0"
    "file_content demo_hundred_kept ''./logs/log-2024-01-01.log'' = ''''"
    "pending 0 demo_hundred_kept = replicate 100 demo_line"
    "console demo_hundred_kept = [''[error] no space left on device'']"
    by (simp_all add: chan_len_def file_content_def pending_def demo_hundred_kept_def
        demo_defs demo2_defs)
  ultimately show ?thesis
    by simp
qed

text \<open>
  The condition on the date is needed as well, because of the defect of the rotation: when
  the date has changed since the file was opened, the flush at the threshold leaves the
  consumer blocked and the file empty.
\<close>

lemma demo_line_next_eq: "line_of demo_next_day demo_entry = demo_line"
  by (simp add: line_of_def CreateFullLog_def demo_defs demo2_defs)

lemma hundred_lines_stuck:
  "run demo_trace demo_next_day_start = Returns demo_stuck \<and>
   goroutines demo_stuck = [Stuck] \<and>
   fs_files demo_stuck = [''./logs/log-2024-01-01.log'' \<mapsto> '''']"
proof -
  let ?pair = "[Call_WriteSafe demo_entry, Round 0 RecvCase]"
  let ?u = "demo_next_day\<lparr>goroutines := [Running (replicate 99 demo_line)]\<rparr>"
  let ?w = "?u\<lparr>writeChannel := Some \<lparr>ch_items = [demo_line], ch_cap = 300, ch_closed = False\<rparr>\<rparr>"
  have 1: "run ?pair demo_next_day_start = Returns demo_next_day"
    using demo_reached by simp
  have "run (concat (replicate 98 ?pair)) demo_next_day =
     Returns (demo_next_day\<lparr>goroutines := (goroutines demo_next_day)[0 :=
        Running ([demo_line] @ replicate 98 (line_of demo_next_day demo_entry))]\<rparr>)"
    by (rule run_pairs [where ch = "\<lparr>ch_items = [], ch_cap = 300, ch_closed = False\<rparr>"])
      (simp_all add: demo_defs demo2_defs)
  moreover have "(goroutines demo_next_day)[0 :=
        Running ([demo_line] @ replicate 98 (line_of demo_next_day demo_entry))] =
        [Running (replicate 99 demo_line)]"
    unfolding demo_line_next_eq replicate_Suc_numeral by (simp add: demo_defs demo2_defs)
  ultimately have 2: "run (concat (replicate 98 ?pair)) demo_next_day = Returns ?u"
    by simp
  have "WriteSafe demo_entry ?u = Returns ?w"
    by (simp add: WriteSafe_def chan_send_def CreateFullLog_def demo_defs demo2_defs)
  moreover have "writeToFile 0 RecvCase ?w = Returns demo_stuck"
    by (simp add: consumer_defs close_defs os_defs demo_world_def demo_clock_def
        demo_makechan_max_def init_world_def
        demo2_defs demo_stuck_def)
  ultimately have 3: "run ?pair ?u = Returns demo_stuck"
    by (simp add: step_def)
  have "run demo_trace demo_next_day_start = Returns demo_stuck"
    unfolding demo_trace_split
    using run_append [OF 1] run_append [OF 2] 3 by simp
  then show ?thesis
    by (simp add: demo_stuck_def demo_defs demo2_defs)
qed

end
